theory Spec2Isabelle
  imports Main "HOL-Library.Word"
begin

unbundle bit_operations_syntax

section \<open>Data model of the resource manager\<close>

text \<open>
  Status codes named by \<open>resource_manager.cpp\<close>. The enumeration itself is declared in a
  header outside the modelled file; \<open>HAILO_STATUS_OTHER\<close> stands for every code the file
  does not name (external collaborators may return them).
\<close>

datatype hailo_status =
    HAILO_SUCCESS
  | HAILO_INVALID_ARGUMENT
  | HAILO_INTERNAL_FAILURE
  | HAILO_NOT_FOUND
  | HAILO_INVALID_OPERATION
  | HAILO_INVALID_CONTEXT_COUNT
  | HAILO_OUT_OF_HOST_MEMORY
  | HAILO_STREAM_ABORTED_BY_USER
  | HAILO_STREAM_NOT_ACTIVATED
  | HAILO_STATUS_OTHER nat

text \<open>\<open>vdma::ChannelId\<close>: engine index and channel index of a physical DMA channel.\<close>

record ChannelId =
  engine_index :: "8 word"
  channel_index :: "8 word"

text \<open>\<open>LayerType\<close> and the direction of a stream; the file names \<open>NOT_SET\<close> and \<open>CFG\<close>.\<close>

datatype LayerType = NOT_SET | INFO | BOUNDARY | INTER_CONTEXT | DDR | CFG

datatype hailo_stream_direction_t = HAILO_H2D_STREAM | HAILO_D2H_STREAM

text \<open>
  \<open>LayerInfo\<close>, with the fields the file reads (\<open>layer_type\<close>, \<open>layer_direction\<close> and
  \<open>layer_network_name\<close> are its \<open>type\<close>, \<open>direction\<close> and \<open>network_name\<close>).
  \<open>format_order_is_nms\<close> is the test \<open>HAILO_FORMAT_ORDER_HAILO_NMS == format.order\<close>.
\<close>

record LayerInfo =
  layer_type :: LayerType
  layer_direction :: hailo_stream_direction_t
  stream_index :: "8 word"
  dma_engine_index :: "8 word"
  name :: string
  layer_network_name :: string
  format_order_is_nms :: bool
  periph_bytes_per_buffer :: "16 word"
  core_buffers_per_frame :: "16 word"

text \<open>\<open>CONTROL_PROTOCOL__host_buffer_info_t\<close> is stored and never inspected: raw bytes.\<close>

type_synonym host_buffer_info = "8 word list"

record EdgeLayer =
  layer_info :: LayerInfo
  channel_id :: ChannelId
  buffer_info :: host_buffer_info

text \<open>One serialized control instruction of a stage, as the builder holds it.\<close>

type_synonym context_control = "8 word list"

text \<open>
  \<open>ContextResources\<close>: the builder's controls, the config buffers (of the external class
  \<open>ConfigBuffer\<close>, type \<open>'cb\<close>), the edge layers and the context type (the enumerator's
  number).
\<close>

record 'cb ContextResources =
  m_context_type :: nat
  m_builder_controls :: "context_control list"
  m_config_buffers :: "'cb list"
  m_edge_layers :: "EdgeLayer list"

subsection \<open>\<open>ContextResources::validate_edge_layers\<close>\<close>

text \<open>
  The loop over \<open>m_edge_layers\<close> with the local \<open>std::set\<close> of used channel ids: the first
  edge layer whose channel id is already in the set makes the \<open>CHECK\<close> return
  \<open>HAILO_INTERNAL_FAILURE\<close>.
\<close>

fun validate_edge_layers_loop :: "ChannelId set \<Rightarrow> EdgeLayer list \<Rightarrow> hailo_status" where
  "validate_edge_layers_loop used_channel_ids [] = HAILO_SUCCESS"
| "validate_edge_layers_loop used_channel_ids (edge_layer # rest) =
     (if channel_id edge_layer \<in> used_channel_ids then HAILO_INTERNAL_FAILURE
      else validate_edge_layers_loop (insert (channel_id edge_layer) used_channel_ids) rest)"

definition validate_edge_layers :: "'cb ContextResources \<Rightarrow> hailo_status" where
  "validate_edge_layers ctx = validate_edge_layers_loop {} (m_edge_layers ctx)"

subsection \<open>Constants and configuration parameters\<close>

text \<open>
  Constants the file uses and headers outside it declare (\<open>hailort.h\<close>,
  \<open>hailort_defaults.hpp\<close>, \<open>control_protocol.h\<close>, the vdma headers). Their values are
  parameters of the model. \<open>MAX_NETWORKS_PER_NETWORK_GROUP\<close> is the length of the
  header's fixed-size \<open>batch_size\<close> array; the context types are the enumerators' numbers.
\<close>

record hailort_constants =
  HAILO_DEFAULT_BATCH_SIZE :: "16 word"
  DEFAULT_ACTUAL_BATCH_SIZE :: "16 word"
  DEFAULT_ENGINE_INDEX :: "8 word"
  DEFAULT_DESC_PAGE_SIZE :: "16 word"
  MAX_NETWORKS_PER_NETWORK_GROUP :: nat
  CONTEXT_TYPE_DYNAMIC :: nat
  CONTEXT_TYPE_COUNT :: nat
  MIN_ACTIVE_TRANSFERS_SCALE :: "32 word"
  MAX_ACTIVE_TRANSFERS_SCALE :: "32 word"
  MAX_DESCS_COUNT :: "32 word"
  HAILO_STREAM_FLAGS_ASYNC :: "32 word"

record hailo_network_parameters_t =
  network_params_batch_size :: "16 word"

record hailo_stream_parameters_t =
  flags :: "32 word"

text \<open>
  \<open>ConfigureNetworkParams\<close>. Each \<open>std::map\<close> is the list of its entries in iteration
  order, with distinct keys. \<open>network_params_batch_size\<close> is the field \<open>batch_size\<close> of
  a network's parameters and \<open>config_batch_size\<close> the field \<open>batch_size\<close> of the whole
  configuration.
\<close>

record ConfigureNetworkParams =
  config_batch_size :: "16 word"
  network_params_by_name :: "(string \<times> hailo_network_parameters_t) list"
  stream_params_by_name :: "(string \<times> hailo_stream_parameters_t) list"

datatype DmaType = PCIE | DRAM

datatype DmaDirection = H2D | D2H

record HailoRTDriver =
  dma_type :: DmaType
  desc_max_page_size :: "16 word"

record CoreOpMetadata =
  preliminary_run_asap :: bool
  all_layer_infos :: "LayerInfo list"

text \<open>
  \<open>CONTROL_PROTOCOL__application_header_t\<close>; \<open>batch_size\<close> is the fixed-size array, one
  entry per network index.
\<close>

record application_header =
  dynamic_contexts_count :: "8 word"
  infer_features_preliminary_run_asap :: bool
  validation_features_is_abbale_supported :: bool
  networks_count :: "8 word"
  batch_size :: "16 word list"
  csm_buffer_size :: "16 word"

text \<open>The value-initialised header \<open>app_header{}\<close>: every field zero.\<close>

definition zero_application_header :: "hailort_constants \<Rightarrow> application_header" where
  "zero_application_header c =
     \<lparr>dynamic_contexts_count = 0, infer_features_preliminary_run_asap = False,
      validation_features_is_abbale_supported = False, networks_count = 0,
      batch_size = replicate (MAX_NETWORKS_PER_NETWORK_GROUP c) 0, csm_buffer_size = 0\<rparr>"

text \<open>
  The messages the control calls of \<open>configure\<close> transmit to the firmware, and the
  device: the list of the messages transmitted to it so far.
\<close>

datatype control_message =
    SET_NETWORK_GROUP_HEADER application_header
  | SET_CONTEXT_INFO "context_control list"

record VdmaDevice =
  transmitted :: "control_message list"

subsection \<open>External collaborators\<close>

type_synonym LayerIdentifier = "LayerType \<times> string \<times> 8 word"

datatype InterruptsDomain = InterruptsDomain_NONE | InterruptsDomain_DEVICE

datatype BoundaryChannelType = BUFFERED | ASYNC

text \<open>\<open>hailo_stream_info_t\<close>, with the fields \<open>calc_hw_infer_batch_count\<close> reads.\<close>

record hailo_stream_info_t =
  format_order_is_hailo_nms :: bool
  nms_info_bbox_size :: "32 word"
  hw_frame_size :: "32 word"

text \<open>
  One call of \<open>DescriptorList::program_last_descriptor\<close>: the transfer size, the
  interrupts domain of the last descriptor, the offset of the first descriptor and the
  circular flag. The descriptor list of a channel is external; the model keeps of it the
  calls that programmed it.
\<close>

record program_call =
  call_transfer_size :: "32 word"
  call_last_desc_interrupts_domain :: InterruptsDomain
  call_desc_offset :: nat
  call_is_circular :: bool

type_synonym DescriptorList = "program_call list"

text \<open>
  The functions of other files the modelled functions call, as parameters of the model:
  \<^item> \<open>firmware_status\<close>: the status of a control call (see above);
  \<^item> \<open>allocator_get_available_channel_id\<close>: \<open>ChannelAllocator::get_available_channel_id\<close>,
    with the allocator passed and returned;
  \<^item> \<open>to_layer_identifier\<close>, \<open>get_stream_info_from_layer_info\<close>: helpers on \<open>LayerInfo\<close>;
  \<^item> \<open>ConfigBuffer_create\<close>, \<open>InterContextBuffer_create\<close>, \<open>BoundaryChannel_create\<close>:
    the \<open>create\<close> functions of the three classes;
  \<^item> \<open>get_desc_buffer_sizes_for_single_transfer\<close>: of \<open>vdma::DescriptorList\<close>, the pair of
    the page size and the descriptors count;
  \<^item> \<open>channel_id_less\<close>: \<open>operator<\<close> of \<open>vdma::ChannelId\<close>, the order of the boundary
    channels map;
  \<^item> \<open>getenv_HAILO_CONFIGURE_FOR_HW_INFER\<close>: whether the environment variable is set;
  \<^item> \<open>stream_name\<close>, \<open>trigger_channel_completion\<close>: of a boundary channel (the second
    returns the channel as the call leaves it);
  \<^item> \<open>max_transfers\<close>: \<open>get_desc_list()->max_transfers(n)\<close> of a boundary channel, the
    number of transfers of \<open>n\<close> bytes its descriptor list can hold, an unsigned number;
  \<^item> \<open>program_last_descriptor_result\<close>: what \<open>program_last_descriptor\<close> returns, from
    the calls made on the list so far, the current one last.
\<close>

record ('al, 'cb, 'bc, 'icb) collaborators =
  firmware_status :: "control_message list \<Rightarrow> hailo_status"
  allocator_get_available_channel_id ::
    "'al \<Rightarrow> LayerIdentifier \<Rightarrow> DmaDirection \<Rightarrow> 8 word \<Rightarrow> (hailo_status + ChannelId) \<times> 'al"
  to_layer_identifier :: "LayerInfo \<Rightarrow> LayerIdentifier"
  get_stream_info_from_layer_info :: "LayerInfo \<Rightarrow> hailo_stream_info_t"
  ConfigBuffer_create :: "HailoRTDriver \<Rightarrow> ChannelId \<Rightarrow> 32 word list \<Rightarrow> hailo_status + 'cb"
  InterContextBuffer_create ::
    "HailoRTDriver \<Rightarrow> 32 word \<Rightarrow> 16 word \<Rightarrow> ChannelId \<Rightarrow> hailo_status + 'icb"
  BoundaryChannel_create ::
    "ChannelId \<Rightarrow> DmaDirection \<Rightarrow> HailoRTDriver \<Rightarrow> 32 word \<Rightarrow> 16 word \<Rightarrow> string \<Rightarrow>
     nat option \<Rightarrow> 16 word \<Rightarrow> BoundaryChannelType \<Rightarrow> hailo_status + 'bc"
  get_desc_buffer_sizes_for_single_transfer ::
    "HailoRTDriver \<Rightarrow> 16 word \<Rightarrow> 16 word \<Rightarrow> 32 word \<Rightarrow> hailo_status + 16 word \<times> 32 word"
  channel_id_less :: "ChannelId \<Rightarrow> ChannelId \<Rightarrow> bool"
  getenv_HAILO_CONFIGURE_FOR_HW_INFER :: bool
  stream_name :: "'bc \<Rightarrow> string"
  trigger_channel_completion :: "'bc \<Rightarrow> 16 word \<Rightarrow> hailo_status \<times> 'bc"
  max_transfers :: "'bc \<Rightarrow> nat \<Rightarrow> nat"
  program_last_descriptor_result :: "program_call list \<Rightarrow> hailo_status + 16 word"

text \<open>
  Modelled from the spec: the firmware control layer (\<open>device_common/control.hpp\<close>) is
  outside the file. Each control call transmits one message to the firmware of the
  device and returns the firmware's status: the collaborator \<open>firmware_status\<close> gives the
  status the firmware answers once the list of the device has grown by the message.
\<close>

definition Control_transmit ::
  "('al, 'cb, 'bc, 'icb) collaborators \<Rightarrow> VdmaDevice \<Rightarrow> control_message \<Rightarrow>
   hailo_status \<times> VdmaDevice" where
  "Control_transmit x dev msg =
     (firmware_status x (transmitted dev @ [msg]),
      dev\<lparr>transmitted := transmitted dev @ [msg]\<rparr>)"

definition context_switch_set_network_group_header ::
  "('al, 'cb, 'bc, 'icb) collaborators \<Rightarrow> VdmaDevice \<Rightarrow> application_header \<Rightarrow>
   hailo_status \<times> VdmaDevice" where
  "context_switch_set_network_group_header x dev header =
     Control_transmit x dev (SET_NETWORK_GROUP_HEADER header)"

definition context_switch_set_context_info ::
  "('al, 'cb, 'bc, 'icb) collaborators \<Rightarrow> VdmaDevice \<Rightarrow> context_control list \<Rightarrow>
   hailo_status \<times> VdmaDevice" where
  "context_switch_set_context_info x dev controls =
     Control_transmit x dev (SET_CONTEXT_INFO controls)"

text \<open>
  Modelled from the spec: the macro \<open>IS_FIT_IN_UINT16\<close> is defined outside the file; the
  value must fit in sixteen bits.
\<close>

definition IS_FIT_IN_UINT16 :: "nat \<Rightarrow> bool" where
  "IS_FIT_IN_UINT16 n = (n \<le> 65535)"

text \<open>
  \<open>std::map::emplace\<close> on the list of the entries in iteration order: nothing changes
  when the key is there, else the entry goes before the first greater key.
\<close>

fun std_map_emplace :: "('k \<Rightarrow> 'k \<Rightarrow> bool) \<Rightarrow> 'k \<Rightarrow> 'v \<Rightarrow> ('k \<times> 'v) list \<Rightarrow> ('k \<times> 'v) list" where
  "std_map_emplace key_less k v [] = [(k, v)]"
| "std_map_emplace key_less k v (e # rest) =
     (if fst e = k then e # rest
      else if key_less k (fst e) then (k, v) # e # rest
      else e # std_map_emplace key_less k v rest)"

text \<open>
  \<open>IntermediateBufferKey\<close> is the pair of the context index and the stream index; the
  order of \<open>std::pair\<close> is lexicographic.
\<close>

type_synonym IntermediateBufferKey = "8 word \<times> 8 word"

definition IntermediateBufferKey_less :: "IntermediateBufferKey \<Rightarrow> IntermediateBufferKey \<Rightarrow> bool" where
  "IntermediateBufferKey_less a b = (fst a < fst b \<or> (fst a = fst b \<and> snd a < snd b))"

subsection \<open>The resources manager\<close>

text \<open>
  \<open>ResourcesManager\<close>, with the members the modelled functions use. The external classes
  are type parameters: \<open>'al\<close> the \<open>ChannelAllocator\<close>, \<open>'cb\<close> the \<open>ConfigBuffer\<close>, \<open>'bc\<close>
  the \<open>vdma::BoundaryChannel\<close>, \<open>'icb\<close> the \<open>InterContextBuffer\<close>. The \<open>std::map\<close>s are
  the lists of their entries in iteration order, a \<open>LatencyMeterPtr\<close> is the number of
  the meter it points to. \<open>m_vdma_device\<close> and \<open>m_driver\<close> are references in the source;
  the model keeps what they refer to in the record.
\<close>

record ('al, 'cb, 'bc, 'icb) ResourcesManager =
  m_contexts_resources :: "'cb ContextResources list"
  m_channel_allocator :: 'al
  m_vdma_device :: VdmaDevice
  m_driver :: HailoRTDriver
  m_config_params :: ConfigureNetworkParams
  m_inter_context_buffers :: "(IntermediateBufferKey \<times> 'icb) list"
  m_core_op_metadata :: CoreOpMetadata
  m_dynamic_context_count :: "8 word"
  m_total_context_count :: "8 word"
  m_network_index_map :: "string list"
  m_latency_meters :: "(string \<times> nat) list"
  m_boundary_channels :: "(ChannelId \<times> 'bc) list"
  m_is_configured :: bool
  m_config_channels_ids :: "ChannelId list"

subsection \<open>\<open>ResourcesManager::get_network_batch_size\<close>\<close>

fun get_network_batch_size_loop ::
  "hailort_constants \<Rightarrow> (string \<times> hailo_network_parameters_t) list \<Rightarrow> string \<Rightarrow>
   hailo_status + 16 word" where
  "get_network_batch_size_loop c [] network_name = Inl HAILO_NOT_FOUND"
| "get_network_batch_size_loop c (network_map # rest) network_name =
     (if fst network_map = network_name then
        Inr (if HAILO_DEFAULT_BATCH_SIZE c = network_params_batch_size (snd network_map)
             then DEFAULT_ACTUAL_BATCH_SIZE c
             else network_params_batch_size (snd network_map))
      else get_network_batch_size_loop c rest network_name)"

definition get_network_batch_size ::
  "hailort_constants \<Rightarrow> ('al, 'cb, 'bc, 'icb) ResourcesManager \<Rightarrow> string \<Rightarrow>
   hailo_status + 16 word" where
  "get_network_batch_size c m network_name =
     get_network_batch_size_loop c (network_params_by_name (m_config_params m)) network_name"

subsection \<open>\<open>ResourcesManager::fill_network_batch_size\<close>\<close>

text \<open>
  The inner loop of \<open>fill_network_batch_size\<close>, from the value \<open>network_index\<close> has on
  entry. The index is a \<open>uint8_t\<close>: it wraps from 255 to 0, so on a table of 256 names or
  more that lacks the name the loop does not end, and the result is \<open>None\<close>. A write
  outside the header's \<open>batch_size\<close> array has no defined behaviour; it is \<open>None\<close> too.
  Otherwise the result is the failed \<open>CHECK_EXPECTED_AS_STATUS\<close>, or the value of
  \<open>network_index\<close> after the loop with the header: the index of the match after
  \<open>break\<close>, the size of the table when the loop ran to its end.
\<close>

partial_function (option) fill_network_batch_size_inner ::
  "hailort_constants \<Rightarrow> ('al, 'cb, 'bc, 'icb) ResourcesManager \<Rightarrow> string \<Rightarrow> 8 word \<Rightarrow>
   application_header \<Rightarrow> (hailo_status + 8 word \<times> application_header) option" where
  "fill_network_batch_size_inner c m network_name_from_params network_index app_header =
     (if unat network_index < length (m_network_index_map m) then
        if m_network_index_map m ! unat network_index = network_name_from_params then
          (case get_network_batch_size c m network_name_from_params of
             Inl status \<Rightarrow> Some (Inl status)
           | Inr batch_size_value \<Rightarrow>
               if unat network_index < length (batch_size app_header) then
                 Some (Inr (network_index,
                   app_header\<lparr>batch_size :=
                     (batch_size app_header)[unat network_index := batch_size_value]\<rparr>))
               else None)
        else fill_network_batch_size_inner c m network_name_from_params (network_index + 1)
               app_header
      else Some (Inr (network_index, app_header)))"

text \<open>
  The outer loop over \<open>network_params_by_name\<close>. The header is an in-out parameter: a
  failing call leaves in it what the earlier iterations wrote.
\<close>

fun fill_network_batch_size_loop ::
  "hailort_constants \<Rightarrow> ('al, 'cb, 'bc, 'icb) ResourcesManager \<Rightarrow>
   (string \<times> hailo_network_parameters_t) list \<Rightarrow> application_header \<Rightarrow>
   (hailo_status \<times> application_header) option" where
  "fill_network_batch_size_loop c m [] app_header = Some (HAILO_SUCCESS, app_header)"
| "fill_network_batch_size_loop c m (network_pair # rest) app_header =
     (case fill_network_batch_size_inner c m (fst network_pair) 0 app_header of
        None \<Rightarrow> None
      | Some (Inl status) \<Rightarrow> Some (status, app_header)
      | Some (Inr (network_index, app_header')) \<Rightarrow>
          if length (m_network_index_map m) = unat network_index
          then Some (HAILO_NOT_FOUND, app_header')
          else fill_network_batch_size_loop c m rest app_header')"

definition fill_network_batch_size ::
  "hailort_constants \<Rightarrow> ('al, 'cb, 'bc, 'icb) ResourcesManager \<Rightarrow> application_header \<Rightarrow>
   (hailo_status \<times> application_header) option" where
  "fill_network_batch_size c m app_header =
     fill_network_batch_size_loop c m (network_params_by_name (m_config_params m))
       (app_header\<lparr>networks_count :=
          of_nat (length (network_params_by_name (m_config_params m)))\<rparr>)"

text \<open>
  The position a name has in the network-name table, counted from 0, in the spec's
  words: the index of its first occurrence, and the length of the table when the name
  is not in it.
\<close>

fun table_index :: "string list \<Rightarrow> string \<Rightarrow> nat" where
  "table_index [] n = 0"
| "table_index (x # xs) n = (if x = n then 0 else Suc (table_index xs n))"

subsection \<open>\<open>ResourcesManager::get_control_core_op_header\<close>\<close>

definition fill_infer_features ::
  "('al, 'cb, 'bc, 'icb) ResourcesManager \<Rightarrow> application_header \<Rightarrow>
   hailo_status \<times> application_header" where
  "fill_infer_features m app_header =
     (HAILO_SUCCESS, app_header\<lparr>infer_features_preliminary_run_asap :=
        preliminary_run_asap (m_core_op_metadata m)\<rparr>)"

definition fill_validation_features ::
  "('al, 'cb, 'bc, 'icb) ResourcesManager \<Rightarrow> application_header \<Rightarrow>
   hailo_status \<times> application_header" where
  "fill_validation_features m app_header =
     (HAILO_SUCCESS, app_header\<lparr>validation_features_is_abbale_supported := False\<rparr>)"

definition fill_csm_buffer_size ::
  "hailort_constants \<Rightarrow> ('al, 'cb, 'bc, 'icb) ResourcesManager \<Rightarrow> application_header \<Rightarrow>
   hailo_status \<times> application_header" where
  "fill_csm_buffer_size c m app_header =
     (HAILO_SUCCESS, app_header\<lparr>csm_buffer_size :=
        min (desc_max_page_size (m_driver m)) (DEFAULT_DESC_PAGE_SIZE c)\<rparr>)"

text \<open>
  Each \<open>CHECK_SUCCESS_AS_EXPECTED\<close> returns the status that is not success. \<open>None\<close> is
  the \<open>None\<close> of \<open>fill_network_batch_size\<close>.
\<close>

definition get_control_core_op_header ::
  "hailort_constants \<Rightarrow> ('al, 'cb, 'bc, 'icb) ResourcesManager \<Rightarrow>
   (hailo_status + application_header) option" where
  "get_control_core_op_header c m =
     (let app_header0 = (zero_application_header c)
            \<lparr>dynamic_contexts_count := m_dynamic_context_count m\<rparr>;
          (status1, app_header1) = fill_infer_features m app_header0
      in if status1 \<noteq> HAILO_SUCCESS then Some (Inl status1)
         else
           let (status2, app_header2) = fill_validation_features m app_header1
           in if status2 \<noteq> HAILO_SUCCESS then Some (Inl status2)
              else
                (case fill_network_batch_size c m app_header2 of
                   None \<Rightarrow> None
                 | Some (status3, app_header3) \<Rightarrow>
                     if status3 \<noteq> HAILO_SUCCESS then Some (Inl status3)
                     else
                       let (status4, app_header4) = fill_csm_buffer_size c m app_header3
                       in if status4 \<noteq> HAILO_SUCCESS then Some (Inl status4)
                          else Some (Inr app_header4)))"

subsection \<open>\<open>ResourcesManager::configure\<close>\<close>

text \<open>
  The loop over \<open>m_contexts_resources\<close>: the controls of each context are transmitted;
  the first status that is not success is returned.
\<close>

fun configure_contexts ::
  "('al, 'cb, 'bc, 'icb) collaborators \<Rightarrow> VdmaDevice \<Rightarrow> 'cb ContextResources list \<Rightarrow>
   hailo_status \<times> VdmaDevice" where
  "configure_contexts x dev [] = (HAILO_SUCCESS, dev)"
| "configure_contexts x dev (context # rest) =
     (case context_switch_set_context_info x dev (m_builder_controls context) of
        (status, dev') \<Rightarrow>
          if status \<noteq> HAILO_SUCCESS then (status, dev')
          else configure_contexts x dev' rest)"

definition configure ::
  "('al, 'cb, 'bc, 'icb) collaborators \<Rightarrow> hailort_constants \<Rightarrow>
   ('al, 'cb, 'bc, 'icb) ResourcesManager \<Rightarrow>
   (hailo_status \<times> ('al, 'cb, 'bc, 'icb) ResourcesManager) option" where
  "configure x c m =
     (if m_is_configured m then Some (HAILO_INTERNAL_FAILURE, m)
      else
        let m1 = m\<lparr>m_is_configured := True\<rparr>
        in case get_control_core_op_header c m1 of
             None \<Rightarrow> None
           | Some (Inl status) \<Rightarrow> Some (status, m1)
           | Some (Inr core_op_header) \<Rightarrow>
               (case context_switch_set_network_group_header x (m_vdma_device m1)
                       core_op_header of
                  (status, dev) \<Rightarrow>
                    if status \<noteq> HAILO_SUCCESS then Some (status, m1\<lparr>m_vdma_device := dev\<rparr>)
                    else
                      (case configure_contexts x dev (m_contexts_resources m1) of
                         (status', dev') \<Rightarrow> Some (status', m1\<lparr>m_vdma_device := dev'\<rparr>))))"

text \<open>
  In the spec's words: the messages of a configuration, the application header and
  then the instructions of each stage, in stage order; and the answer of the firmware to
  the message of position \<open>j\<close> among them, given once the device has received the
  messages up to that one.
\<close>

definition configure_messages ::
  "application_header \<Rightarrow> 'cb ContextResources list \<Rightarrow> control_message list" where
  "configure_messages header contexts =
     SET_NETWORK_GROUP_HEADER header #
     map (\<lambda>context. SET_CONTEXT_INFO (m_builder_controls context)) contexts"

definition firmware_answer ::
  "('al, 'cb, 'bc, 'icb) collaborators \<Rightarrow> VdmaDevice \<Rightarrow> control_message list \<Rightarrow> nat \<Rightarrow>
   hailo_status" where
  "firmware_answer x dev msgs j = firmware_status x (transmitted dev @ take (Suc j) msgs)"

text \<open>
  A caller that calls \<open>configure\<close> on the same manager once for each element of the list
  (the behaviour of the collaborators during that call), and collects the statuses.
\<close>

fun configure_repeatedly ::
  "('al, 'cb, 'bc, 'icb) collaborators list \<Rightarrow> hailort_constants \<Rightarrow>
   ('al, 'cb, 'bc, 'icb) ResourcesManager \<Rightarrow>
   (hailo_status list \<times> ('al, 'cb, 'bc, 'icb) ResourcesManager) option" where
  "configure_repeatedly [] c m = Some ([], m)"
| "configure_repeatedly (x # xs) c m =
     (case configure x c m of
        None \<Rightarrow> None
      | Some (status, m') \<Rightarrow>
          (case configure_repeatedly xs c m' of
             None \<Rightarrow> None
           | Some (statuses, m'') \<Rightarrow> Some (status # statuses, m'')))"

subsection \<open>\<open>ContextResources::create\<close> and \<open>ResourcesManager::add_new_context\<close>\<close>

text \<open>
  \<open>ConfigBufferInfoMap\<close> maps a config stream index to the sizes of its buffers: the list
  of its entries; its \<open>size()\<close> is the length of the list and \<open>at\<close> is \<open>map_of\<close>. The loop
  of \<open>create\<close> counts in a \<open>uint8_t\<close>. \<open>None\<close>: the loop does not end (the index wraps on
  256 entries), \<open>at\<close> throws, or the index is outside \<open>config_channels_ids\<close>.
\<close>

type_synonym ConfigBufferInfoMap = "(8 word \<times> 32 word list) list"

partial_function (option) create_config_buffers ::
  "('al, 'cb, 'bc, 'icb) collaborators \<Rightarrow> HailoRTDriver \<Rightarrow> ChannelId list \<Rightarrow>
   ConfigBufferInfoMap \<Rightarrow> 8 word \<Rightarrow> 'cb list \<Rightarrow> (hailo_status + 'cb list) option" where
  "create_config_buffers x driver config_channels_ids config_buffer_infos config_stream_index
     config_buffers =
     (if unat config_stream_index < length config_buffer_infos then
        if unat config_stream_index < length config_channels_ids then
          (case map_of config_buffer_infos config_stream_index of
             None \<Rightarrow> None
           | Some info \<Rightarrow>
               (case ConfigBuffer_create x driver
                       (config_channels_ids ! unat config_stream_index) info of
                  Inl status \<Rightarrow> Some (Inl status)
                | Inr buffer_resource \<Rightarrow>
                    create_config_buffers x driver config_channels_ids config_buffer_infos
                      (config_stream_index + 1) (config_buffers @ [buffer_resource])))
        else None
      else Some (Inr config_buffers))"

definition ContextResources_create ::
  "('al, 'cb, 'bc, 'icb) collaborators \<Rightarrow> hailort_constants \<Rightarrow> HailoRTDriver \<Rightarrow> nat \<Rightarrow>
   ChannelId list \<Rightarrow> ConfigBufferInfoMap \<Rightarrow> (hailo_status + 'cb ContextResources) option" where
  "ContextResources_create x c driver context_type config_channels_ids config_buffer_infos =
     (if \<not> context_type < CONTEXT_TYPE_COUNT c then Some (Inl HAILO_INVALID_ARGUMENT)
      else if \<not> length config_buffer_infos \<le> length config_channels_ids
      then Some (Inl HAILO_INTERNAL_FAILURE)
      else
        (case create_config_buffers x driver config_channels_ids config_buffer_infos 0 [] of
           None \<Rightarrow> None
         | Some (Inl status) \<Rightarrow> Some (Inl status)
         | Some (Inr config_buffers) \<Rightarrow>
             Some (Inr \<lparr>m_context_type = context_type, m_builder_controls = [],
               m_config_buffers = config_buffers, m_edge_layers = []\<rparr>)))"

text \<open>The result is the new context, which the source returns by reference.\<close>

definition add_new_context ::
  "('al, 'cb, 'bc, 'icb) collaborators \<Rightarrow> hailort_constants \<Rightarrow>
   ('al, 'cb, 'bc, 'icb) ResourcesManager \<Rightarrow> nat \<Rightarrow> ConfigBufferInfoMap \<Rightarrow>
   ((hailo_status + 'cb ContextResources) \<times> ('al, 'cb, 'bc, 'icb) ResourcesManager) option" where
  "add_new_context x c m context_type config_info =
     (if \<not> m_total_context_count m < 255 then Some (Inl HAILO_INVALID_CONTEXT_COUNT, m)
      else
        (case ContextResources_create x c (m_driver m) context_type (m_config_channels_ids m)
                config_info of
           None \<Rightarrow> None
         | Some (Inl status) \<Rightarrow> Some (Inl status, m)
         | Some (Inr context_resources) \<Rightarrow>
             Some (Inr context_resources,
               m\<lparr>m_contexts_resources := m_contexts_resources m @ [context_resources],
                 m_total_context_count := m_total_context_count m + 1,
                 m_dynamic_context_count :=
                   (if CONTEXT_TYPE_DYNAMIC c = context_type
                    then m_dynamic_context_count m + 1
                    else m_dynamic_context_count m)\<rparr>)))"

subsection \<open>\<open>ResourcesManager::get_available_channel_id\<close>\<close>

text \<open>
  The source assigns to its parameter \<open>engine_index\<close>: \<open>requested_engine_index\<close> is the
  value passed and \<open>used_engine_index\<close> the value after the \<open>if\<close>.
\<close>

definition get_available_channel_id ::
  "('al, 'cb, 'bc, 'icb) collaborators \<Rightarrow> hailort_constants \<Rightarrow>
   ('al, 'cb, 'bc, 'icb) ResourcesManager \<Rightarrow> LayerIdentifier \<Rightarrow> DmaDirection \<Rightarrow> 8 word \<Rightarrow>
   (hailo_status + ChannelId) \<times> ('al, 'cb, 'bc, 'icb) ResourcesManager" where
  "get_available_channel_id x c m layer_identifier direction requested_engine_index =
     (let used_engine_index =
            (if dma_type (m_driver m) = PCIE then DEFAULT_ENGINE_INDEX c
             else requested_engine_index)
      in case allocator_get_available_channel_id x (m_channel_allocator m) layer_identifier
                direction used_engine_index of
           (result, allocator) \<Rightarrow> (result, m\<lparr>m_channel_allocator := allocator\<rparr>))"

subsection \<open>\<open>ResourcesManager::process_interrupts\<close>\<close>

text \<open>
  \<open>IrqData\<close>: the count of the records and the fixed-capacity array of the records
  (\<open>irq_channel_id\<close> is the field \<open>channel_id\<close> of a record).
\<close>

record ChannelIrqData =
  irq_channel_id :: ChannelId
  is_active :: bool
  desc_num_processed :: "16 word"
  host_error :: "8 word"
  device_error :: "8 word"

record IrqData =
  channels_count :: "8 word"
  channels_irq_data :: "ChannelIrqData list"

text \<open>
  What \<open>process_interrupts\<close> does to the outside, in the order it does it: the four log
  lines and the calls of a channel's \<open>trigger_channel_completion\<close>.
\<close>

datatype irq_effect =
    LOG_ERROR_no_such_boundary_channel ChannelId
  | LOG_CRITICAL_error_on_channel ChannelId "8 word" "8 word"
  | LOG_CRITICAL_aborted_by_external_source ChannelId
  | TRIGGER_CHANNEL_COMPLETION ChannelId "16 word"
  | LOG_ERROR_trigger_failed ChannelId hailo_status

text \<open>
  The boundary channels are shared pointers: the call on the channel of an entry
  changes the channel the entry points to.
\<close>

fun boundary_channel_assign :: "ChannelId \<Rightarrow> 'bc \<Rightarrow> (ChannelId \<times> 'bc) list \<Rightarrow> (ChannelId \<times> 'bc) list" where
  "boundary_channel_assign k v [] = []"
| "boundary_channel_assign k v (e # rest) =
     (if fst e = k then (k, v) # rest else e # boundary_channel_assign k v rest)"

text \<open>The body of the loop, for one record; each \<open>continue\<close> ends it.\<close>

definition process_channel_irq_data ::
  "('al, 'cb, 'bc, 'icb) collaborators \<Rightarrow> (ChannelId \<times> 'bc) list \<Rightarrow> ChannelIrqData \<Rightarrow>
   (ChannelId \<times> 'bc) list \<times> irq_effect list" where
  "process_channel_irq_data x boundary_channels channel_irq_data =
     (case map_of boundary_channels (irq_channel_id channel_irq_data) of
        None \<Rightarrow>
          (boundary_channels,
           [LOG_ERROR_no_such_boundary_channel (irq_channel_id channel_irq_data)])
      | Some boundary_channel \<Rightarrow>
          if host_error channel_irq_data \<noteq> 0 \<or> device_error channel_irq_data \<noteq> 0 then
            (boundary_channels,
             [LOG_CRITICAL_error_on_channel (irq_channel_id channel_irq_data)
                (host_error channel_irq_data) (device_error channel_irq_data)])
          else if \<not> is_active channel_irq_data then
            (boundary_channels,
             [LOG_CRITICAL_aborted_by_external_source (irq_channel_id channel_irq_data)])
          else
            (case trigger_channel_completion x boundary_channel
                    (desc_num_processed channel_irq_data) of
               (status, boundary_channel') \<Rightarrow>
                 (boundary_channel_assign (irq_channel_id channel_irq_data) boundary_channel'
                    boundary_channels,
                  TRIGGER_CHANNEL_COMPLETION (irq_channel_id channel_irq_data)
                    (desc_num_processed channel_irq_data) #
                  (if status \<noteq> HAILO_SUCCESS \<and> status \<noteq> HAILO_STREAM_ABORTED_BY_USER \<and>
                      status \<noteq> HAILO_STREAM_NOT_ACTIVATED
                   then [LOG_ERROR_trigger_failed (irq_channel_id channel_irq_data) status]
                   else []))))"

text \<open>
  The loop, from the value \<open>irq_index\<close> has on entry. The source asserts that
  \<open>channels_count\<close> is at most the capacity of the array; a read outside the array has
  no defined behaviour: \<open>None\<close>.
\<close>

function process_interrupts_loop ::
  "('al, 'cb, 'bc, 'icb) collaborators \<Rightarrow> IrqData \<Rightarrow> 8 word \<Rightarrow> (ChannelId \<times> 'bc) list \<Rightarrow>
   irq_effect list \<Rightarrow> ((ChannelId \<times> 'bc) list \<times> irq_effect list) option" where
  "process_interrupts_loop x irq_data irq_index boundary_channels effects =
     (if irq_index < channels_count irq_data then
        if unat irq_index < length (channels_irq_data irq_data) then
          (case process_channel_irq_data x boundary_channels
                  (channels_irq_data irq_data ! unat irq_index) of
             (boundary_channels', new_effects) \<Rightarrow>
               process_interrupts_loop x irq_data (irq_index + 1) boundary_channels'
                 (effects @ new_effects))
        else None
      else Some (boundary_channels, effects))"
  by pat_completeness auto
termination
proof (relation "measure (\<lambda>(x, irq_data, irq_index, boundary_channels, effects).
    unat (channels_count irq_data) - unat irq_index)")
  show "wf (measure (\<lambda>(x :: ('al, 'cb, 'bc, 'icb) collaborators, irq_data, irq_index :: 8 word,
      boundary_channels :: (ChannelId \<times> 'bc) list, effects :: irq_effect list).
    unat (channels_count irq_data) - unat irq_index))"
    by simp
next
  fix x :: "('al, 'cb, 'bc, 'icb) collaborators"
  fix irq_data :: IrqData and irq_index :: "8 word"
  fix boundary_channels :: "(ChannelId \<times> 'bc) list" and effects :: "irq_effect list"
  fix p :: "(ChannelId \<times> 'bc) list \<times> irq_effect list"
  fix boundary_channels' :: "(ChannelId \<times> 'bc) list" and new_effects :: "irq_effect list"
  assume "irq_index < channels_count irq_data"
  then have lt: "unat irq_index < unat (channels_count irq_data)"
    by (simp add: word_less_nat_alt)
  moreover have "unat (channels_count irq_data) < 256"
    using unsigned_less [of "channels_count irq_data", where ?'a = nat] by simp
  ultimately have "unat (irq_index + 1) = Suc (unat irq_index)"
    by (simp add: unat_word_ariths)
  with lt show "((x, irq_data, irq_index + 1, boundary_channels', effects @ new_effects),
      (x, irq_data, irq_index, boundary_channels, effects))
    \<in> measure (\<lambda>(x, irq_data, irq_index, boundary_channels, effects).
        unat (channels_count irq_data) - unat irq_index)"
    by simp
qed

declare process_interrupts_loop.simps [simp del]

text \<open>
  \<open>process_interrupts\<close> returns nothing; the model returns the manager as the call
  leaves it and the effects of the call.
\<close>

definition process_interrupts ::
  "('al, 'cb, 'bc, 'icb) collaborators \<Rightarrow> ('al, 'cb, 'bc, 'icb) ResourcesManager \<Rightarrow> IrqData \<Rightarrow>
   (('al, 'cb, 'bc, 'icb) ResourcesManager \<times> irq_effect list) option" where
  "process_interrupts x m irq_data =
     (case process_interrupts_loop x irq_data 0 (m_boundary_channels m) [] of
        None \<Rightarrow> None
      | Some (boundary_channels, effects) \<Rightarrow>
          Some (m\<lparr>m_boundary_channels := boundary_channels\<rparr>, effects))"

text \<open>
  In the spec's words: a record is valid when a boundary channel is registered for its
  channel id, it reports no host and no device error, and it reports the channel
  active; the completion triggers among the effects, in order.
\<close>

definition irq_record_valid :: "(ChannelId \<times> 'bc) list \<Rightarrow> ChannelIrqData \<Rightarrow> bool" where
  "irq_record_valid boundary_channels d =
     (map_of boundary_channels (irq_channel_id d) \<noteq> None \<and> host_error d = 0 \<and>
      device_error d = 0 \<and> is_active d)"

fun completion_triggers :: "irq_effect list \<Rightarrow> (ChannelId \<times> 16 word) list" where
  "completion_triggers [] = []"
| "completion_triggers (TRIGGER_CHANNEL_COMPLETION k n # rest) = (k, n) # completion_triggers rest"
| "completion_triggers (e # rest) = completion_triggers rest"

text \<open>
  In the spec's words: the processed-descriptor counts forwarded to the channel of a
  channel id, those of the valid records for that id, in the order of the records; and
  the channel as the completion trigger leaves it once it was given each of the counts.
\<close>

definition forwarded_counts ::
  "(ChannelId \<times> 'bc) list \<Rightarrow> ChannelId \<Rightarrow> ChannelIrqData list \<Rightarrow> 16 word list" where
  "forwarded_counts boundary_channels k records =
     map desc_num_processed
       (filter (\<lambda>d. irq_channel_id d = k \<and> irq_record_valid boundary_channels d) records)"

definition forward_completions ::
  "('al, 'cb, 'bc, 'icb) collaborators \<Rightarrow> 16 word list \<Rightarrow> 'bc \<Rightarrow> 'bc" where
  "forward_completions x counts boundary_channel =
     fold (\<lambda>n channel. snd (trigger_channel_completion x channel n)) counts boundary_channel"

subsection \<open>The consumers of the network batch size\<close>

text \<open>
  \<open>ResourcesManager::create_inter_context_buffer\<close>. The result is the buffer of the
  entry \<open>emplace\<close> returns: the one already there when the key is in the map.
\<close>

definition create_inter_context_buffer ::
  "('al, 'cb, 'bc, 'icb) collaborators \<Rightarrow> hailort_constants \<Rightarrow>
   ('al, 'cb, 'bc, 'icb) ResourcesManager \<Rightarrow> 32 word \<Rightarrow> 8 word \<Rightarrow> 8 word \<Rightarrow> string \<Rightarrow> ChannelId \<Rightarrow>
   (hailo_status + 'icb) \<times> ('al, 'cb, 'bc, 'icb) ResourcesManager" where
  "create_inter_context_buffer x c m transfer_size src_stream_index src_context_index
     network_name d2h_channel_id =
     (case get_network_batch_size c m network_name of
        Inl status \<Rightarrow> (Inl status, m)
      | Inr network_batch_size \<Rightarrow>
          (case InterContextBuffer_create x (m_driver m) transfer_size network_batch_size
                  d2h_channel_id of
             Inl status \<Rightarrow> (Inl status, m)
           | Inr buffer \<Rightarrow>
               let key = (src_context_index, src_stream_index);
                   buffers = std_map_emplace IntermediateBufferKey_less key buffer
                     (m_inter_context_buffers m)
               in (case map_of buffers key of
                     None \<Rightarrow> (Inr buffer, m\<lparr>m_inter_context_buffers := buffers\<rparr>)
                   | Some emplaced \<Rightarrow> (Inr emplaced, m\<lparr>m_inter_context_buffers := buffers\<rparr>))))"

text \<open>
  \<open>ResourcesManager::create_boundary_vdma_channel\<close>. The products are taken in 32 bits.
  \<open>None\<close>: \<open>stream_params_by_name.at\<close> throws, the layer's name is not in the map.
\<close>

definition create_boundary_vdma_channel ::
  "('al, 'cb, 'bc, 'icb) collaborators \<Rightarrow> hailort_constants \<Rightarrow>
   ('al, 'cb, 'bc, 'icb) ResourcesManager \<Rightarrow> LayerInfo \<Rightarrow>
   (hailo_status \<times> ('al, 'cb, 'bc, 'icb) ResourcesManager) option" where
  "create_boundary_vdma_channel x c m layer =
     (let channel_direction =
            (if layer_direction layer = HAILO_H2D_STREAM then H2D else D2H)
      in case get_available_channel_id x c m (to_layer_identifier x layer) channel_direction
                (dma_engine_index layer) of
           (Inl status, m1) \<Rightarrow> Some (status, m1)
         | (Inr new_channel_id, m1) \<Rightarrow>
             (case get_network_batch_size c m1 (layer_network_name layer) of
                Inl status \<Rightarrow> Some (status, m1)
              | Inr network_batch_size \<Rightarrow>
                  let min_active_trans = MIN_ACTIVE_TRANSFERS_SCALE c * ucast network_batch_size;
                      max_active_trans = MAX_ACTIVE_TRANSFERS_SCALE c * ucast network_batch_size
                  in if \<not> IS_FIT_IN_UINT16 (unat min_active_trans)
                     then Some (HAILO_INVALID_ARGUMENT, m1)
                     else if \<not> IS_FIT_IN_UINT16 (unat max_active_trans)
                     then Some (HAILO_INVALID_ARGUMENT, m1)
                     else
                       let latency_meter =
                             map_of (m_latency_meters m1) (layer_network_name layer);
                           transfer_size = (ucast (periph_bytes_per_buffer layer) :: 32 word) *
                             ucast (core_buffers_per_frame layer)
                       in case get_desc_buffer_sizes_for_single_transfer x (m_driver m1)
                                 (ucast min_active_trans) (ucast max_active_trans)
                                 transfer_size of
                            Inl status \<Rightarrow> Some (status, m1)
                          | Inr (page_size, desc_count) \<Rightarrow>
                              let descs_count =
                                    (if getenv_HAILO_CONFIGURE_FOR_HW_INFER x
                                     then MAX_DESCS_COUNT c else desc_count)
                              in case map_of (stream_params_by_name (m_config_params m1))
                                        (name layer) of
                                   None \<Rightarrow> None
                                 | Some stream_params \<Rightarrow>
                                     let channel_type =
                                           (if flags stream_params AND
                                                 HAILO_STREAM_FLAGS_ASYNC c = 0
                                            then BUFFERED else ASYNC)
                                     in case BoundaryChannel_create x new_channel_id
                                               channel_direction (m_driver m1) descs_count
                                               page_size (name layer) latency_meter
                                               network_batch_size channel_type of
                                          Inl status \<Rightarrow> Some (status, m1)
                                        | Inr channel \<Rightarrow>
                                            Some (HAILO_SUCCESS,
                                              m1\<lparr>m_boundary_channels :=
                                                std_map_emplace (channel_id_less x)
                                                  new_channel_id channel
                                                  (m_boundary_channels m1)\<rparr>)))"

text \<open>
  In the words of the claim on the sentinel: the manager whose configured batch sizes
  have the default sentinel replaced by the actual default batch size.
\<close>

definition substitute_default_batch_sizes ::
  "hailort_constants \<Rightarrow> ('al, 'cb, 'bc, 'icb) ResourcesManager \<Rightarrow>
   ('al, 'cb, 'bc, 'icb) ResourcesManager" where
  "substitute_default_batch_sizes c m =
     m\<lparr>m_config_params := (m_config_params m)
        \<lparr>network_params_by_name :=
           map (\<lambda>entry. (fst entry,
                  (snd entry)\<lparr>network_params_batch_size :=
                    (if HAILO_DEFAULT_BATCH_SIZE c = network_params_batch_size (snd entry)
                     then DEFAULT_ACTUAL_BATCH_SIZE c
                     else network_params_batch_size (snd entry))\<rparr>))
             (network_params_by_name (m_config_params m))\<rparr>\<rparr>"

subsection \<open>The hardware-only inference\<close>

text \<open>
  \<open>get_boundary_vdma_channel_by_stream_name\<close>: the first channel, in the order of the
  map, whose stream has the name.
\<close>

fun get_boundary_vdma_channel_by_stream_name_loop ::
  "('al, 'cb, 'bc, 'icb) collaborators \<Rightarrow> (ChannelId \<times> 'bc) list \<Rightarrow> string \<Rightarrow> hailo_status + 'bc" where
  "get_boundary_vdma_channel_by_stream_name_loop x [] requested = Inl HAILO_NOT_FOUND"
| "get_boundary_vdma_channel_by_stream_name_loop x (boundary_channel # rest) requested =
     (if stream_name x (snd boundary_channel) = requested then Inr (snd boundary_channel)
      else get_boundary_vdma_channel_by_stream_name_loop x rest requested)"

definition get_boundary_vdma_channel_by_stream_name ::
  "('al, 'cb, 'bc, 'icb) collaborators \<Rightarrow> ('al, 'cb, 'bc, 'icb) ResourcesManager \<Rightarrow> string \<Rightarrow>
   hailo_status + 'bc" where
  "get_boundary_vdma_channel_by_stream_name x m requested =
     get_boundary_vdma_channel_by_stream_name_loop x (m_boundary_channels m) requested"

text \<open>
  \<open>calc_hw_infer_batch_count\<close>: the loop over the layers, with the value of
  \<open>batch_count\<close> so far. The size of a batch's transfers is a product in 32 bits: it
  wraps, and \<open>max_transfers\<close> is given the wrapped size. \<open>MIN\<close> is a macro of another
  file: the smaller of the two, converted back to the \<open>uint16_t\<close> \<open>batch_count\<close>.
\<close>

fun calc_hw_infer_batch_count_loop ::
  "('al, 'cb, 'bc, 'icb) collaborators \<Rightarrow> ('al, 'cb, 'bc, 'icb) ResourcesManager \<Rightarrow> 16 word \<Rightarrow>
   LayerInfo list \<Rightarrow> 16 word \<Rightarrow> hailo_status + 16 word" where
  "calc_hw_infer_batch_count_loop x m dynamic_batch_size [] batch_count = Inr batch_count"
| "calc_hw_infer_batch_count_loop x m dynamic_batch_size (layer # rest) batch_count =
     (let stream_info = get_stream_info_from_layer_info x layer;
          single_transfer_size =
            (if format_order_is_hailo_nms stream_info then nms_info_bbox_size stream_info
             else hw_frame_size stream_info)
      in case get_boundary_vdma_channel_by_stream_name x m (name layer) of
           Inl status \<Rightarrow> Inl status
         | Inr boundary_channel \<Rightarrow>
             let max_batch_transfers = max_transfers x boundary_channel
                   (unat (single_transfer_size * ucast dynamic_batch_size))
             in calc_hw_infer_batch_count_loop x m dynamic_batch_size rest
                  (if unat batch_count < max_batch_transfers then batch_count
                   else of_nat max_batch_transfers))"

definition calc_hw_infer_batch_count ::
  "('al, 'cb, 'bc, 'icb) collaborators \<Rightarrow> ('al, 'cb, 'bc, 'icb) ResourcesManager \<Rightarrow> 16 word \<Rightarrow>
   hailo_status + 16 word" where
  "calc_hw_infer_batch_count x m dynamic_batch_size =
     calc_hw_infer_batch_count_loop x m dynamic_batch_size
       (all_layer_infos (m_core_op_metadata m)) 0xFFFF"

text \<open>
  In the spec's words: the size in bytes of a group of \<open>dynamic_batch_size\<close> transfers of
  a layer, \<open>dynamic_batch_size\<close> times the size of one transfer of the layer (the bounding
  box size of an NMS layer, the hardware frame size of any other), a product of numbers
  with no bound; and the number of such groups the descriptor list of the layer's
  boundary channel can hold (0 for a layer with no boundary channel).
\<close>

definition layer_batch_transfer_size ::
  "('al, 'cb, 'bc, 'icb) collaborators \<Rightarrow> 16 word \<Rightarrow> LayerInfo \<Rightarrow> nat" where
  "layer_batch_transfer_size x dynamic_batch_size layer =
     unat dynamic_batch_size *
     unat (if format_order_is_hailo_nms (get_stream_info_from_layer_info x layer)
           then nms_info_bbox_size (get_stream_info_from_layer_info x layer)
           else hw_frame_size (get_stream_info_from_layer_info x layer))"

definition layer_max_batch_transfers ::
  "('al, 'cb, 'bc, 'icb) collaborators \<Rightarrow> ('al, 'cb, 'bc, 'icb) ResourcesManager \<Rightarrow> 16 word \<Rightarrow>
   LayerInfo \<Rightarrow> nat" where
  "layer_max_batch_transfers x m dynamic_batch_size layer =
     (case get_boundary_vdma_channel_by_stream_name x m (name layer) of
        Inl status \<Rightarrow> 0
      | Inr boundary_channel \<Rightarrow>
          max_transfers x boundary_channel (layer_batch_transfer_size x dynamic_batch_size layer))"

text \<open>
  \<open>program_desc_for_hw_only_flow\<close>. The inner loop, from the value \<open>transfer_index\<close>
  has on entry: each iteration is one call of \<open>program_last_descriptor\<close>, added to the
  calls of the list; \<open>CHECK_EXPECTED\<close> returns the status of a call that failed. The
  comparison with \<open>dynamic_batch_size - 1\<close> is one of \<open>int\<close>s.
\<close>

function program_desc_transfers ::
  "('al, 'cb, 'bc, 'icb) collaborators \<Rightarrow> 32 word \<Rightarrow> 16 word \<Rightarrow> 16 word \<Rightarrow> nat \<Rightarrow>
   DescriptorList \<Rightarrow> (hailo_status + nat) \<times> DescriptorList" where
  "program_desc_transfers x single_transfer_size dynamic_batch_size transfer_index
     acc_desc_offset desc_list =
     (if transfer_index < dynamic_batch_size then
        (case program_last_descriptor_result x
                (desc_list @
                 [\<lparr>call_transfer_size = single_transfer_size,
                   call_last_desc_interrupts_domain =
                     (if uint dynamic_batch_size - 1 = uint transfer_index
                      then InterruptsDomain_DEVICE else InterruptsDomain_NONE),
                   call_desc_offset = acc_desc_offset, call_is_circular = False\<rparr>]) of
           Inl status \<Rightarrow>
             (Inl status,
              desc_list @
              [\<lparr>call_transfer_size = single_transfer_size,
                call_last_desc_interrupts_domain =
                  (if uint dynamic_batch_size - 1 = uint transfer_index
                   then InterruptsDomain_DEVICE else InterruptsDomain_NONE),
                call_desc_offset = acc_desc_offset, call_is_circular = False\<rparr>])
         | Inr desc_count_local \<Rightarrow>
             program_desc_transfers x single_transfer_size dynamic_batch_size
               (transfer_index + 1) (acc_desc_offset + unat desc_count_local)
               (desc_list @
                [\<lparr>call_transfer_size = single_transfer_size,
                  call_last_desc_interrupts_domain =
                    (if uint dynamic_batch_size - 1 = uint transfer_index
                     then InterruptsDomain_DEVICE else InterruptsDomain_NONE),
                  call_desc_offset = acc_desc_offset, call_is_circular = False\<rparr>]))
      else (Inr acc_desc_offset, desc_list))"
  by pat_completeness auto
termination
proof (relation "measure (\<lambda>(x, single_transfer_size, dynamic_batch_size, transfer_index,
    acc_desc_offset, desc_list). unat dynamic_batch_size - unat transfer_index)")
  show "wf (measure (\<lambda>(x :: ('al, 'cb, 'bc, 'icb) collaborators, single_transfer_size :: 32 word,
      dynamic_batch_size :: 16 word, transfer_index :: 16 word, acc_desc_offset :: nat,
      desc_list :: DescriptorList). unat dynamic_batch_size - unat transfer_index))"
    by simp
next
  fix x :: "('al, 'cb, 'bc, 'icb) collaborators"
  fix single_transfer_size :: "32 word" and dynamic_batch_size transfer_index :: "16 word"
  fix acc_desc_offset :: nat and desc_list :: DescriptorList and desc_count_local :: "16 word"
  assume "transfer_index < dynamic_batch_size"
  then have lt: "unat transfer_index < unat dynamic_batch_size"
    by (simp add: word_less_nat_alt)
  moreover have "unat dynamic_batch_size < 65536"
    using unsigned_less [of dynamic_batch_size, where ?'a = nat] by simp
  ultimately have "unat (transfer_index + 1) = Suc (unat transfer_index)"
    by (simp add: unat_word_ariths)
  with lt show "((x, single_transfer_size, dynamic_batch_size, transfer_index + 1,
        acc_desc_offset + unat desc_count_local,
        desc_list @
        [\<lparr>call_transfer_size = single_transfer_size,
          call_last_desc_interrupts_domain =
            (if uint dynamic_batch_size - 1 = uint transfer_index
             then InterruptsDomain_DEVICE else InterruptsDomain_NONE),
          call_desc_offset = acc_desc_offset, call_is_circular = False\<rparr>]),
      (x, single_transfer_size, dynamic_batch_size, transfer_index, acc_desc_offset, desc_list))
    \<in> measure (\<lambda>(x, single_transfer_size, dynamic_batch_size, transfer_index,
        acc_desc_offset, desc_list). unat dynamic_batch_size - unat transfer_index)"
    by simp
qed

declare program_desc_transfers.simps [simp del]

text \<open>The outer loop, from the value \<open>batch_index\<close> has on entry.\<close>

function program_desc_batches ::
  "('al, 'cb, 'bc, 'icb) collaborators \<Rightarrow> 32 word \<Rightarrow> 16 word \<Rightarrow> 16 word \<Rightarrow> 16 word \<Rightarrow> nat \<Rightarrow>
   DescriptorList \<Rightarrow> (hailo_status + nat) \<times> DescriptorList" where
  "program_desc_batches x single_transfer_size dynamic_batch_size batch_count batch_index
     acc_desc_offset desc_list =
     (if batch_index < batch_count then
        (case program_desc_transfers x single_transfer_size dynamic_batch_size 0
                acc_desc_offset desc_list of
           (Inl status, desc_list') \<Rightarrow> (Inl status, desc_list')
         | (Inr acc_desc_offset', desc_list') \<Rightarrow>
             program_desc_batches x single_transfer_size dynamic_batch_size batch_count
               (batch_index + 1) acc_desc_offset' desc_list')
      else (Inr acc_desc_offset, desc_list))"
  by pat_completeness auto
termination
proof (relation "measure (\<lambda>(x, single_transfer_size, dynamic_batch_size, batch_count,
    batch_index, acc_desc_offset, desc_list). unat batch_count - unat batch_index)")
  show "wf (measure (\<lambda>(x :: ('al, 'cb, 'bc, 'icb) collaborators, single_transfer_size :: 32 word,
      dynamic_batch_size :: 16 word, batch_count :: 16 word, batch_index :: 16 word,
      acc_desc_offset :: nat, desc_list :: DescriptorList).
      unat batch_count - unat batch_index))"
    by simp
next
  fix x :: "('al, 'cb, 'bc, 'icb) collaborators"
  fix single_transfer_size :: "32 word"
  fix dynamic_batch_size batch_count batch_index :: "16 word"
  fix acc_desc_offset acc_desc_offset' :: nat and desc_list desc_list' :: DescriptorList
  fix r :: "(hailo_status + nat) \<times> DescriptorList" and e :: "hailo_status + nat"
  assume "batch_index < batch_count"
  then have lt: "unat batch_index < unat batch_count"
    by (simp add: word_less_nat_alt)
  moreover have "unat batch_count < 65536"
    using unsigned_less [of batch_count, where ?'a = nat] by simp
  ultimately have "unat (batch_index + 1) = Suc (unat batch_index)"
    by (simp add: unat_word_ariths)
  with lt show "((x, single_transfer_size, dynamic_batch_size, batch_count, batch_index + 1,
        acc_desc_offset', desc_list'),
      (x, single_transfer_size, dynamic_batch_size, batch_count, batch_index, acc_desc_offset,
        desc_list))
    \<in> measure (\<lambda>(x, single_transfer_size, dynamic_batch_size, batch_count, batch_index,
        acc_desc_offset, desc_list). unat batch_count - unat batch_index)"
    by simp
qed

declare program_desc_batches.simps [simp del]

text \<open>
  The result is the count of the descriptors programmed, or a status; with it, the
  descriptor list as the call leaves it.
\<close>

definition program_desc_for_hw_only_flow ::
  "('al, 'cb, 'bc, 'icb) collaborators \<Rightarrow> DescriptorList \<Rightarrow> 32 word \<Rightarrow> 16 word \<Rightarrow> 16 word \<Rightarrow>
   (hailo_status + 16 word) \<times> DescriptorList" where
  "program_desc_for_hw_only_flow x desc_list single_transfer_size dynamic_batch_size batch_count =
     (case program_desc_batches x single_transfer_size dynamic_batch_size batch_count 0 0
             desc_list of
        (Inl status, desc_list') \<Rightarrow> (Inl status, desc_list')
      | (Inr acc_desc_offset, desc_list') \<Rightarrow>
          if \<not> IS_FIT_IN_UINT16 acc_desc_offset then (Inl HAILO_INTERNAL_FAILURE, desc_list')
          else (Inr (of_nat acc_desc_offset), desc_list'))"

text \<open>
  In the spec's words: the interrupts domains of a run of \<open>batch_count\<close> groups of
  \<open>dynamic_batch_size\<close> transfers, where the last transfer of each group only raises a
  device interrupt.
\<close>

definition hw_only_interrupts_domains :: "nat \<Rightarrow> nat \<Rightarrow> InterruptsDomain list" where
  "hw_only_interrupts_domains dynamic_batch_size batch_count =
     concat (replicate batch_count
       (replicate (dynamic_batch_size - 1) InterruptsDomain_NONE @ [InterruptsDomain_DEVICE]))"

text \<open>
  What the programming call of position \<open>q\<close> of a run returned, on a descriptor list
  that had the calls \<open>desc_list\<close> before the run; and the count of the descriptors the
  calls of a run programmed, the sum of what the calls returned.
\<close>

definition program_call_result ::
  "('al, 'cb, 'bc, 'icb) collaborators \<Rightarrow> DescriptorList \<Rightarrow> program_call list \<Rightarrow> nat \<Rightarrow>
   hailo_status + 16 word" where
  "program_call_result x desc_list calls q =
     program_last_descriptor_result x (desc_list @ take (Suc q) calls)"

fun programmed_descriptors ::
  "('al, 'cb, 'bc, 'icb) collaborators \<Rightarrow> DescriptorList \<Rightarrow> program_call list \<Rightarrow> nat" where
  "programmed_descriptors x desc_list [] = 0"
| "programmed_descriptors x desc_list (call # calls) =
     (case program_last_descriptor_result x (desc_list @ [call]) of
        Inl status \<Rightarrow> 0
      | Inr desc_count \<Rightarrow> unat desc_count) +
     programmed_descriptors x (desc_list @ [call]) calls"

subsection \<open>Example inputs\<close>

definition example_layer :: "string \<Rightarrow> string \<Rightarrow> LayerInfo" where
  "example_layer layer network =
     \<lparr>layer_type = BOUNDARY, layer_direction = HAILO_H2D_STREAM, stream_index = 0,
      dma_engine_index = 0, name = layer, layer_network_name = network,
      format_order_is_nms = False, periph_bytes_per_buffer = 8, core_buffers_per_frame = 2\<rparr>"

definition example_edge_layer :: "string \<Rightarrow> 8 word \<Rightarrow> EdgeLayer" where
  "example_edge_layer layer index =
     \<lparr>layer_info = example_layer layer ''net'',
      channel_id = \<lparr>engine_index = 0, channel_index = index\<rparr>, buffer_info = []\<rparr>"

definition example_context :: "EdgeLayer list \<Rightarrow> unit ContextResources" where
  "example_context edge_layers =
     \<lparr>m_context_type = 1, m_builder_controls = [], m_config_buffers = [],
      m_edge_layers = edge_layers\<rparr>"

definition example_constants :: hailort_constants where
  "example_constants =
     \<lparr>HAILO_DEFAULT_BATCH_SIZE = 0, DEFAULT_ACTUAL_BATCH_SIZE = 1, DEFAULT_ENGINE_INDEX = 0,
      DEFAULT_DESC_PAGE_SIZE = 512, MAX_NETWORKS_PER_NETWORK_GROUP = 8,
      CONTEXT_TYPE_DYNAMIC = 1, CONTEXT_TYPE_COUNT = 4, MIN_ACTIVE_TRANSFERS_SCALE = 2,
      MAX_ACTIVE_TRANSFERS_SCALE = 4, MAX_DESCS_COUNT = 65536, HAILO_STREAM_FLAGS_ASYNC = 1\<rparr>"

text \<open>
  A manager with the given network-name table and the given batch sizes by network name,
  no context, and the boundary channels given.
\<close>

definition example_manager ::
  "string list \<Rightarrow> (string \<times> 16 word) list \<Rightarrow> (ChannelId \<times> 'bc) list \<Rightarrow>
   (unit, unit, 'bc, unit) ResourcesManager" where
  "example_manager table sizes channels =
     \<lparr>m_contexts_resources = [], m_channel_allocator = (),
      m_vdma_device = \<lparr>transmitted = []\<rparr>,
      m_driver = \<lparr>dma_type = PCIE, desc_max_page_size = 4096\<rparr>,
      m_config_params = \<lparr>config_batch_size = 8,
        network_params_by_name = map (\<lambda>(n, b). (n, \<lparr>network_params_batch_size = b\<rparr>)) sizes,
        stream_params_by_name = []\<rparr>,
      m_inter_context_buffers = [],
      m_core_op_metadata = \<lparr>preliminary_run_asap = False, all_layer_infos = []\<rparr>,
      m_dynamic_context_count = 0, m_total_context_count = 0,
      m_network_index_map = table, m_latency_meters = [], m_boundary_channels = channels,
      m_is_configured = False, m_config_channels_ids = []\<rparr>"

text \<open>
  A boundary channel for the examples: its stream name, the number of bytes its
  descriptor list holds, and the descriptors its completion trigger was given.
\<close>

record example_channel =
  ch_stream_name :: string
  ch_list_bytes :: nat
  ch_completed :: "16 word list"

text \<open>
  Collaborators for the examples: the firmware answers \<open>fw\<close>, a completion trigger
  answers \<open>trigger_status\<close>, programming a descriptor takes \<open>descs\<close> descriptors, every
  \<open>create\<close> succeeds, the allocator grants channel 0 of the engine asked for, and a
  descriptor list holds as many transfers as fit in its bytes.
\<close>

definition example_collaborators ::
  "(control_message list \<Rightarrow> hailo_status) \<Rightarrow> hailo_status \<Rightarrow> 16 word \<Rightarrow>
   (unit, unit, example_channel, unit) collaborators" where
  "example_collaborators fw trigger_status descs =
     \<lparr>firmware_status = fw,
      allocator_get_available_channel_id =
        (\<lambda>al ident dir engine. (Inr \<lparr>engine_index = engine, channel_index = 0\<rparr>, al)),
      to_layer_identifier = (\<lambda>layer. (layer_type layer, name layer, stream_index layer)),
      get_stream_info_from_layer_info =
        (\<lambda>layer. \<lparr>format_order_is_hailo_nms = format_order_is_nms layer,
           nms_info_bbox_size = 16, hw_frame_size = 1024\<rparr>),
      ConfigBuffer_create = (\<lambda>driver ident info. Inr ()),
      InterContextBuffer_create = (\<lambda>driver size batch ident. Inr ()),
      BoundaryChannel_create =
        (\<lambda>ident dir driver descs_count page_size layer meter batch kind.
           Inr \<lparr>ch_stream_name = layer, ch_list_bytes = unat descs_count * unat page_size,
             ch_completed = []\<rparr>),
      get_desc_buffer_sizes_for_single_transfer = (\<lambda>driver lo hi size. Inr (512, 64)),
      channel_id_less =
        (\<lambda>a b. engine_index a < engine_index b \<or>
           engine_index a = engine_index b \<and> channel_index a < channel_index b),
      getenv_HAILO_CONFIGURE_FOR_HW_INFER = False,
      stream_name = ch_stream_name,
      trigger_channel_completion =
        (\<lambda>ch n. (trigger_status, ch\<lparr>ch_completed := ch_completed ch @ [n]\<rparr>)),
      max_transfers = (\<lambda>ch n. ch_list_bytes ch div n),
      program_last_descriptor_result = (\<lambda>calls. Inr descs)\<rparr>"

text \<open>
  The collaborators of the examples with a descriptor list that takes \<open>limit\<close>
  programming calls, of one descriptor each, and refuses the calls after them.
\<close>

definition example_limited_list ::
  "nat \<Rightarrow> (unit, unit, example_channel, unit) collaborators" where
  "example_limited_list limit =
     (example_collaborators (\<lambda>l. HAILO_SUCCESS) HAILO_SUCCESS 1)
       \<lparr>program_last_descriptor_result :=
          (\<lambda>calls. if length calls \<le> limit then Inr 1 else Inl HAILO_INVALID_OPERATION)\<rparr>"

definition example_stage :: "context_control list \<Rightarrow> unit ContextResources" where
  "example_stage controls =
     \<lparr>m_context_type = 1, m_builder_controls = controls, m_config_buffers = [],
      m_edge_layers = []\<rparr>"

text \<open>
  A manager of two stages over the table of the networks a, b and c, and the header
  \<open>get_control_core_op_header\<close> assembles for it when a has batch size 4 and c has 2.
\<close>

definition example_two_stage_manager ::
  "(string \<times> 16 word) list \<Rightarrow> (unit, unit, example_channel, unit) ResourcesManager" where
  "example_two_stage_manager sizes =
     (example_manager [''a'', ''b'', ''c''] sizes [])
       \<lparr>m_contexts_resources := [example_stage [[1], [2]], example_stage [[3]]]\<rparr>"

definition example_header :: application_header where
  "example_header =
     \<lparr>dynamic_contexts_count = 0, infer_features_preliminary_run_asap = False,
      validation_features_is_abbale_supported = False, networks_count = 2,
      batch_size = [4, 0, 2, 0, 0, 0, 0, 0], csm_buffer_size = 512\<rparr>"

definition example_boundary_channel :: "string \<Rightarrow> nat \<Rightarrow> example_channel" where
  "example_boundary_channel stream bytes =
     \<lparr>ch_stream_name = stream, ch_list_bytes = bytes, ch_completed = []\<rparr>"

definition example_irq_record :: "8 word \<Rightarrow> 16 word \<Rightarrow> 8 word \<Rightarrow> bool \<Rightarrow> ChannelIrqData" where
  "example_irq_record index descs error active =
     \<lparr>irq_channel_id = \<lparr>engine_index = 0, channel_index = index\<rparr>, is_active = active,
      desc_num_processed = descs, host_error = error, device_error = 0\<rparr>"

text \<open>
  Five records in an array of six: one for channel 9, which is not registered, then
  four for channel 1: a valid one, one with a host error, one inactive, a valid one.
\<close>

definition example_irq_data :: IrqData where
  "example_irq_data =
     \<lparr>channels_count = 5,
      channels_irq_data =
        [example_irq_record 9 3 0 True, example_irq_record 1 5 0 True,
         example_irq_record 1 6 2 True, example_irq_record 1 4 0 False,
         example_irq_record 1 7 0 True, example_irq_record 1 8 0 True]\<rparr>"

text \<open>
  A manager of three layers, of frames of 1024 bytes, whose boundary channels hold 40960,
  30000 and 49152 bytes: 10, 7 and 12 groups of 4 transfers.
\<close>

definition example_hw_infer_manager :: "(unit, unit, example_channel, unit) ResourcesManager" where
  "example_hw_infer_manager =
     (example_manager [''net''] [(''net'', 4)]
        [(\<lparr>engine_index = 0, channel_index = 0\<rparr>, example_boundary_channel ''in0'' 40960),
         (\<lparr>engine_index = 0, channel_index = 1\<rparr>, example_boundary_channel ''out0'' 30000),
         (\<lparr>engine_index = 0, channel_index = 2\<rparr>, example_boundary_channel ''out1'' 49152)])
       \<lparr>m_core_op_metadata :=
          \<lparr>preliminary_run_asap = False,
           all_layer_infos =
             [example_layer ''in0'' ''net'', example_layer ''out0'' ''net'',
              example_layer ''out1'' ''net'']\<rparr>\<rparr>"

section \<open>Edge-layer validation\<close>

lemma validate_edge_layers_loop_result:
  "validate_edge_layers_loop used es =
     (if distinct (map channel_id es) \<and> set (map channel_id es) \<inter> used = {}
      then HAILO_SUCCESS else HAILO_INTERNAL_FAILURE)"
  by (induction es arbitrary: used) auto

text \<open>
  C3. \<open>validate_edge_layers\<close> returns the internal-failure status if and only if two edge
  layers of the stage (at different positions of the list) have equal channel ids, and
  returns success for every list whose channel ids are pairwise distinct.
\<close>

theorem validate_edge_layers_iff_duplicate:
  "(validate_edge_layers ctx = HAILO_INTERNAL_FAILURE \<longleftrightarrow>
      (\<exists>i j. i < j \<and> j < length (m_edge_layers ctx) \<and>
         channel_id (m_edge_layers ctx ! i) = channel_id (m_edge_layers ctx ! j))) \<and>
   (distinct (map channel_id (m_edge_layers ctx)) \<longrightarrow> validate_edge_layers ctx = HAILO_SUCCESS)"
proof -
  let ?es = "m_edge_layers ctx"
  have dup: "(\<not> distinct (map channel_id ?es)) =
      (\<exists>i j. i < j \<and> j < length ?es \<and> channel_id (?es ! i) = channel_id (?es ! j))"
  proof
    assume "\<not> distinct (map channel_id ?es)"
    then obtain i j where ij: "i < length ?es" "j < length ?es" "i \<noteq> j"
      "map channel_id ?es ! i = map channel_id ?es ! j"
      unfolding distinct_conv_nth by auto
    show "\<exists>i j. i < j \<and> j < length ?es \<and> channel_id (?es ! i) = channel_id (?es ! j)"
    proof (cases "i < j")
      case True
      with ij show ?thesis by (intro exI [of _ i] exI [of _ j]) simp
    next
      case False
      with ij have "j < i" by simp
      with ij show ?thesis by (intro exI [of _ j] exI [of _ i]) simp
    qed
  next
    assume "\<exists>i j. i < j \<and> j < length ?es \<and> channel_id (?es ! i) = channel_id (?es ! j)"
    then obtain i j where ij: "i < j" "j < length ?es"
      "channel_id (?es ! i) = channel_id (?es ! j)"
      by blast
    show "\<not> distinct (map channel_id ?es)"
    proof
      assume "distinct (map channel_id ?es)"
      moreover from ij have "i < length (map channel_id ?es)" "j < length (map channel_id ?es)"
        "map channel_id ?es ! i = map channel_id ?es ! j"
        by simp_all
      ultimately have "i = j"
        by (simp only: nth_eq_iff_index_eq)
      with ij show False by simp
    qed
  qed
  show ?thesis
    unfolding dup [symmetric]
    by (simp add: validate_edge_layers_def validate_edge_layers_loop_result)
qed

theorem validate_edge_layers_iff_duplicate_witness:
  "validate_edge_layers
     (example_context [example_edge_layer ''in0'' 3, example_edge_layer ''in1'' 4,
        example_edge_layer ''out0'' 3]) = HAILO_INTERNAL_FAILURE \<and>
   validate_edge_layers
     (example_context [example_edge_layer ''in0'' 3, example_edge_layer ''in1'' 4,
        example_edge_layer ''out0'' 5]) = HAILO_SUCCESS"
proof -
  let ?dup = "example_context [example_edge_layer ''in0'' 3, example_edge_layer ''in1'' 4,
        example_edge_layer ''out0'' 3]"
  let ?ok = "example_context [example_edge_layer ''in0'' 3, example_edge_layer ''in1'' 4,
        example_edge_layer ''out0'' 5]"
  have "(0::nat) < 2 \<and> 2 < length (m_edge_layers ?dup) \<and>
      channel_id (m_edge_layers ?dup ! 0) = channel_id (m_edge_layers ?dup ! 2)"
    by (simp add: example_context_def example_edge_layer_def)
  then have "\<exists>i j. i < j \<and> j < length (m_edge_layers ?dup) \<and>
      channel_id (m_edge_layers ?dup ! i) = channel_id (m_edge_layers ?dup ! j)"
    by blast
  then have "validate_edge_layers ?dup = HAILO_INTERNAL_FAILURE"
    using validate_edge_layers_iff_duplicate [of ?dup] by blast
  moreover have "distinct (map channel_id (m_edge_layers ?ok))"
    by (simp add: example_context_def example_edge_layer_def)
  then have "validate_edge_layers ?ok = HAILO_SUCCESS"
    using validate_edge_layers_iff_duplicate [of ?ok] by blast
  ultimately show ?thesis by simp
qed

section \<open>Network batch sizes in the application header\<close>

lemma table_index_absent: "n \<notin> set tbl \<Longrightarrow> table_index tbl n = length tbl"
  by (induction tbl) auto

lemma table_index_present:
  "n \<in> set tbl \<Longrightarrow> table_index tbl n < length tbl \<and> tbl ! table_index tbl n = n"
  by (induction tbl) auto

lemma table_index_first:
  "k < length tbl \<Longrightarrow> tbl ! k = n \<Longrightarrow> n \<notin> set (take k tbl) \<Longrightarrow> table_index tbl n = k"
proof (induction tbl arbitrary: k)
  case Nil
  then show ?case by simp
next
  case (Cons x xs)
  then show ?case by (cases k) auto
qed

lemma get_network_batch_size_loop_map_of:
  "get_network_batch_size_loop c ps n =
     (case map_of ps n of
        None \<Rightarrow> Inl HAILO_NOT_FOUND
      | Some p \<Rightarrow>
          Inr (if HAILO_DEFAULT_BATCH_SIZE c = network_params_batch_size p
               then DEFAULT_ACTUAL_BATCH_SIZE c else network_params_batch_size p))"
  by (induction ps) auto

lemma unat_succ_u8: "unat (i :: 8 word) < 255 \<Longrightarrow> unat (i + 1) = Suc (unat i)"
  by (simp add: unat_word_ariths)

lemma fill_network_batch_size_inner_eq:
  assumes "length (m_network_index_map m) \<le> 255"
    and "unat i \<le> length (m_network_index_map m)"
    and "nm \<notin> set (take (unat i) (m_network_index_map m))"
  shows "fill_network_batch_size_inner c m nm i h =
    (if table_index (m_network_index_map m) nm < length (m_network_index_map m) then
       (case get_network_batch_size c m nm of
          Inl status \<Rightarrow> Some (Inl status)
        | Inr b \<Rightarrow>
            if table_index (m_network_index_map m) nm < length (batch_size h) then
              Some (Inr (of_nat (table_index (m_network_index_map m) nm),
                h\<lparr>batch_size := (batch_size h)[table_index (m_network_index_map m) nm := b]\<rparr>))
            else None)
     else Some (Inr (of_nat (length (m_network_index_map m)), h)))"
  using assms
proof (induction "length (m_network_index_map m) - unat i" arbitrary: i)
  case 0
  then have eq: "unat i = length (m_network_index_map m)" by simp
  with 0 have "nm \<notin> set (m_network_index_map m)" by simp
  then have "table_index (m_network_index_map m) nm = length (m_network_index_map m)"
    by (rule table_index_absent)
  moreover have "i = of_nat (length (m_network_index_map m))"
    using eq [symmetric] by simp
  ultimately show ?case
    using eq by (subst fill_network_batch_size_inner.simps) simp
next
  case (Suc d)
  then have lt: "unat i < length (m_network_index_map m)" by simp
  show ?case
  proof (cases "m_network_index_map m ! unat i = nm")
    case True
    with lt Suc.prems have k: "table_index (m_network_index_map m) nm = unat i"
      by (intro table_index_first) simp_all
    show ?thesis
      using lt True k
      by (subst fill_network_batch_size_inner.simps) (simp split: sum.splits)
  next
    case False
    from lt Suc.prems have u: "unat (i + 1) = Suc (unat i)"
      by (intro unat_succ_u8) simp
    have "nm \<notin> set (take (unat (i + 1)) (m_network_index_map m))"
      using Suc.prems lt False by (simp add: u take_Suc_conv_app_nth)
    moreover have "d = length (m_network_index_map m) - unat (i + 1)"
      using Suc.hyps(2) u by simp
    moreover have "unat (i + 1) \<le> length (m_network_index_map m)"
      using lt u by simp
    ultimately have "fill_network_batch_size_inner c m nm (i + 1) h =
      (if table_index (m_network_index_map m) nm < length (m_network_index_map m) then
       (case get_network_batch_size c m nm of
          Inl status \<Rightarrow> Some (Inl status)
        | Inr b \<Rightarrow>
            if table_index (m_network_index_map m) nm < length (batch_size h) then
              Some (Inr (of_nat (table_index (m_network_index_map m) nm),
                h\<lparr>batch_size := (batch_size h)[table_index (m_network_index_map m) nm := b]\<rparr>))
            else None)
     else Some (Inr (of_nat (length (m_network_index_map m)), h)))"
      using Suc.hyps(1) Suc.prems(1) by blast
    then show ?thesis
      using lt False
      by (subst fill_network_batch_size_inner.simps) simp
  qed
qed


lemma fill_network_batch_size_inner_same_lookups:
  assumes "fill_network_batch_size_inner c m n i h = Some y"
  shows "\<forall>m' :: ('al, 'cb, 'bc, 'icb) ResourcesManager.
      m_network_index_map m' = m_network_index_map m \<and>
      get_network_batch_size c m' n = get_network_batch_size c m n \<longrightarrow>
      fill_network_batch_size_inner c m' n i h = Some y"
  using assms
proof (induction rule: fill_network_batch_size_inner.raw_induct [rotated 1, consumes 1])
  case (1 f c m n i h y)
  show ?case
  proof (intro allI impI)
    fix m' :: "('al, 'cb, 'bc, 'icb) ResourcesManager"
    assume same: "m_network_index_map m' = m_network_index_map m \<and>
      get_network_batch_size c m' n = get_network_batch_size c m n"
    show "fill_network_batch_size_inner c m' n i h = Some y"
    proof (cases "unat i < length (m_network_index_map m) \<and> m_network_index_map m ! unat i \<noteq> n")
      case True
      with 1(2) have "f c m n (i + 1) h = Some y" by simp
      from 1(1) [OF this] same
      have "fill_network_batch_size_inner c m' n (i + 1) h = Some y" by blast
      with True same show ?thesis
        by (subst fill_network_batch_size_inner.simps) simp
    next
      case False
      with 1(2) same show ?thesis
        by (subst fill_network_batch_size_inner.simps) (auto split: if_splits)
    qed
  qed
qed

lemma fill_network_batch_size_inner_cong:
  assumes "m_network_index_map m' = m_network_index_map m"
    and "get_network_batch_size c m' n = get_network_batch_size c m n"
  shows "fill_network_batch_size_inner c m' n i h = fill_network_batch_size_inner c m n i h"
proof -
  have forth: "fill_network_batch_size_inner c m' n i h = Some y"
    if "fill_network_batch_size_inner c m n i h = Some y" for y
    using fill_network_batch_size_inner_same_lookups [OF that] assms by blast
  have backwards: "fill_network_batch_size_inner c m n i h = Some y"
    if "fill_network_batch_size_inner c m' n i h = Some y" for y
    using fill_network_batch_size_inner_same_lookups [OF that] assms by metis
  show ?thesis
  proof (cases "fill_network_batch_size_inner c m n i h")
    case None
    then show ?thesis
      using backwards by (cases "fill_network_batch_size_inner c m' n i h") auto
  next
    case (Some y)
    with forth show ?thesis by simp
  qed
qed

lemma fill_network_batch_size_loop_cong:
  assumes "m_network_index_map m' = m_network_index_map m"
    and "\<And>n. get_network_batch_size c m' n = get_network_batch_size c m n"
  shows "fill_network_batch_size_loop c m' ps h = fill_network_batch_size_loop c m ps h"
  by (induction ps arbitrary: h)
    (auto simp: fill_network_batch_size_inner_cong [OF assms(1) assms(2)] assms(1)
      split: option.splits sum.splits)

lemma of_nat_u8_index: "k \<le> 255 \<Longrightarrow> unat (of_nat k :: 8 word) = k"
  by (simp add: unat_of_nat)

lemma fill_network_batch_size_loop_success:
  assumes "length (m_network_index_map m) \<le> length (batch_size h)"
    and "length (m_network_index_map m) \<le> 255"
    and "fst ` set ps \<subseteq> set (m_network_index_map m)"
    and "\<forall>n \<in> fst ` set ps. \<exists>b. get_network_batch_size c m n = Inr b"
  shows "\<exists>h'. fill_network_batch_size_loop c m ps h = Some (HAILO_SUCCESS, h') \<and>
      length (batch_size h') = length (batch_size h) \<and>
      (\<forall>i < length (batch_size h). batch_size h' ! i =
         (if i < length (m_network_index_map m) \<and>
             table_index (m_network_index_map m) (m_network_index_map m ! i) = i \<and>
             m_network_index_map m ! i \<in> fst ` set ps
          then projr (get_network_batch_size c m (m_network_index_map m ! i))
          else batch_size h ! i))"
  using assms
proof (induction ps arbitrary: h)
  case Nil
  then show ?case by simp
next
  case (Cons p ps)
  let ?tbl = "m_network_index_map m"
  let ?k = "table_index ?tbl (fst p)"
  from Cons.prems have in_tbl: "fst p \<in> set ?tbl" by simp
  then have k: "?k < length ?tbl" "?tbl ! ?k = fst p"
    using table_index_present by blast+
  from Cons.prems obtain b where b: "get_network_batch_size c m (fst p) = Inr b" by auto
  let ?h1 = "h\<lparr>batch_size := (batch_size h)[?k := b]\<rparr>"
  have len255: "length ?tbl \<le> 255" using Cons.prems by simp
  have inner: "fill_network_batch_size_inner c m (fst p) 0 h = Some (Inr (of_nat ?k, ?h1))"
    using k b Cons.prems(1) len255
    by (subst fill_network_batch_size_inner_eq) simp_all
  have uk: "unat (of_nat ?k :: 8 word) = ?k"
    using k len255 by (intro of_nat_u8_index) simp
  have step: "fill_network_batch_size_loop c m (p # ps) h =
      fill_network_batch_size_loop c m ps ?h1"
    using inner uk k by simp
  have "\<exists>h'. fill_network_batch_size_loop c m ps ?h1 = Some (HAILO_SUCCESS, h') \<and>
      length (batch_size h') = length (batch_size ?h1) \<and>
      (\<forall>i < length (batch_size ?h1). batch_size h' ! i =
         (if i < length ?tbl \<and> table_index ?tbl (?tbl ! i) = i \<and> ?tbl ! i \<in> fst ` set ps
          then projr (get_network_batch_size c m (?tbl ! i))
          else batch_size ?h1 ! i))"
    using Cons.prems by (intro Cons.IH) simp_all
  then obtain h' where h': "fill_network_batch_size_loop c m ps ?h1 = Some (HAILO_SUCCESS, h')"
    "length (batch_size h') = length (batch_size h)"
    "\<And>i. i < length (batch_size h) \<Longrightarrow> batch_size h' ! i =
         (if i < length ?tbl \<and> table_index ?tbl (?tbl ! i) = i \<and> ?tbl ! i \<in> fst ` set ps
          then projr (get_network_batch_size c m (?tbl ! i))
          else batch_size ?h1 ! i)"
    by auto
  have "batch_size h' ! i =
         (if i < length ?tbl \<and> table_index ?tbl (?tbl ! i) = i \<and>
             ?tbl ! i \<in> fst ` set (p # ps)
          then projr (get_network_batch_size c m (?tbl ! i))
          else batch_size h ! i)" if i: "i < length (batch_size h)" for i
  proof (cases "i = ?k")
    case True
    then show ?thesis
      using h'(3) [OF i] i k b by simp
  next
    case False
    then have "\<not> (table_index ?tbl (?tbl ! i) = i \<and> ?tbl ! i = fst p)"
      by auto
    then show ?thesis
      using h'(3) [OF i] i False by auto
  qed
  with h'(1,2) step show ?case by simp
qed

lemma fill_network_batch_size_loop_not_found:
  assumes "length (m_network_index_map m) \<le> length (batch_size h)"
    and "length (m_network_index_map m) \<le> 255"
    and "\<not> fst ` set ps \<subseteq> set (m_network_index_map m)"
    and "\<forall>n \<in> fst ` set ps. \<exists>b. get_network_batch_size c m n = Inr b"
  shows "\<exists>h'. fill_network_batch_size_loop c m ps h = Some (HAILO_NOT_FOUND, h')"
  using assms
proof (induction ps arbitrary: h)
  case Nil
  then show ?case by simp
next
  case (Cons p ps)
  let ?tbl = "m_network_index_map m"
  let ?k = "table_index ?tbl (fst p)"
  have len255: "length ?tbl \<le> 255" using Cons.prems by simp
  show ?case
  proof (cases "fst p \<in> set ?tbl")
    case False
    then have "?k = length ?tbl" by (rule table_index_absent)
    then have "fill_network_batch_size_inner c m (fst p) 0 h =
        Some (Inr (of_nat (length ?tbl), h))"
      using len255 by (subst fill_network_batch_size_inner_eq) simp_all
    moreover have "unat (of_nat (length ?tbl) :: 8 word) = length ?tbl"
      using len255 by (rule of_nat_u8_index)
    ultimately show ?thesis by simp
  next
    case True
    then have k: "?k < length ?tbl" "?tbl ! ?k = fst p"
      using table_index_present by blast+
    from Cons.prems obtain b where b: "get_network_batch_size c m (fst p) = Inr b" by auto
    let ?h1 = "h\<lparr>batch_size := (batch_size h)[?k := b]\<rparr>"
    have inner: "fill_network_batch_size_inner c m (fst p) 0 h = Some (Inr (of_nat ?k, ?h1))"
      using k b Cons.prems(1) len255
      by (subst fill_network_batch_size_inner_eq) simp_all
    have uk: "unat (of_nat ?k :: 8 word) = ?k"
      using k len255 by (intro of_nat_u8_index) simp
    have step: "fill_network_batch_size_loop c m (p # ps) h =
        fill_network_batch_size_loop c m ps ?h1"
      using inner uk k by simp
    have "\<exists>h'. fill_network_batch_size_loop c m ps ?h1 = Some (HAILO_NOT_FOUND, h')"
      using Cons.prems True by (intro Cons.IH) simp_all
    with step show ?thesis by simp
  qed
qed


text \<open>
  C2. When the network-name table fits the header's fixed-size array and has at most
  255 names (the range of the \<open>uint8_t\<close> network index), \<open>fill_network_batch_size\<close>
  behaves as follows. If every configured network name is in the table, it succeeds,
  and the array holds at the position of each configured network's index in the table
  (the first position of the name) the network's batch size, as
  \<open>get_network_batch_size\<close> gives it; every other entry is left as it was. If some
  configured network name is absent from the table, it returns not-found.
\<close>

theorem fill_network_batch_size_by_table_index:
  assumes "length (m_network_index_map m) \<le> length (batch_size app_header)"
    and "length (m_network_index_map m) \<le> 255"
  shows "(fst ` set (network_params_by_name (m_config_params m)) \<subseteq> set (m_network_index_map m) \<longrightarrow>
      (\<exists>h'. fill_network_batch_size c m app_header = Some (HAILO_SUCCESS, h') \<and>
         length (batch_size h') = length (batch_size app_header) \<and>
         (\<forall>i < length (batch_size app_header).
            if i < length (m_network_index_map m) \<and>
               table_index (m_network_index_map m) (m_network_index_map m ! i) = i \<and>
               m_network_index_map m ! i \<in> fst ` set (network_params_by_name (m_config_params m))
            then get_network_batch_size c m (m_network_index_map m ! i) = Inr (batch_size h' ! i)
            else batch_size h' ! i = batch_size app_header ! i))) \<and>
    (\<not> fst ` set (network_params_by_name (m_config_params m)) \<subseteq> set (m_network_index_map m) \<longrightarrow>
      (\<exists>h'. fill_network_batch_size c m app_header = Some (HAILO_NOT_FOUND, h')))"
proof -
  let ?ps = "network_params_by_name (m_config_params m)"
  let ?tbl = "m_network_index_map m"
  let ?h0 = "app_header\<lparr>networks_count := of_nat (length ?ps)\<rparr>"
  have known: "\<forall>n \<in> fst ` set ?ps. \<exists>b. get_network_batch_size c m n = Inr b"
  proof
    fix n assume "n \<in> fst ` set ?ps"
    then obtain p where "map_of ?ps n = Some p"
      by (metis domD dom_map_of_conv_image_fst)
    then show "\<exists>b. get_network_batch_size c m n = Inr b"
      by (simp add: get_network_batch_size_def get_network_batch_size_loop_map_of)
  qed
  have b0: "length ?tbl \<le> length (batch_size ?h0)" "length ?tbl \<le> 255"
    using assms by simp_all
  show ?thesis
  proof (intro conjI impI)
    assume sub: "fst ` set ?ps \<subseteq> set ?tbl"
    from fill_network_batch_size_loop_success [OF b0 sub known]
    obtain h' where h': "fill_network_batch_size_loop c m ?ps ?h0 = Some (HAILO_SUCCESS, h')"
      "length (batch_size h') = length (batch_size app_header)"
      "\<And>i. i < length (batch_size app_header) \<Longrightarrow> batch_size h' ! i =
         (if i < length ?tbl \<and> table_index ?tbl (?tbl ! i) = i \<and> ?tbl ! i \<in> fst ` set ?ps
          then projr (get_network_batch_size c m (?tbl ! i))
          else batch_size app_header ! i)"
      by auto
    have "if i < length ?tbl \<and> table_index ?tbl (?tbl ! i) = i \<and> ?tbl ! i \<in> fst ` set ?ps
          then get_network_batch_size c m (?tbl ! i) = Inr (batch_size h' ! i)
          else batch_size h' ! i = batch_size app_header ! i"
      if i: "i < length (batch_size app_header)" for i
    proof (cases "i < length ?tbl \<and> table_index ?tbl (?tbl ! i) = i \<and> ?tbl ! i \<in> fst ` set ?ps")
      case True
      with known obtain b where "get_network_batch_size c m (?tbl ! i) = Inr b" by blast
      with True h'(3) [OF i] show ?thesis by simp
    next
      case False
      with h'(3) [OF i] show ?thesis by auto
    qed
    with h'(1,2) show "\<exists>h'. fill_network_batch_size c m app_header = Some (HAILO_SUCCESS, h') \<and>
         length (batch_size h') = length (batch_size app_header) \<and>
         (\<forall>i < length (batch_size app_header).
            if i < length ?tbl \<and> table_index ?tbl (?tbl ! i) = i \<and> ?tbl ! i \<in> fst ` set ?ps
            then get_network_batch_size c m (?tbl ! i) = Inr (batch_size h' ! i)
            else batch_size h' ! i = batch_size app_header ! i)"
      unfolding fill_network_batch_size_def by blast
  next
    assume "\<not> fst ` set ?ps \<subseteq> set ?tbl"
    from fill_network_batch_size_loop_not_found [OF b0 this known]
    show "\<exists>h'. fill_network_batch_size c m app_header = Some (HAILO_NOT_FOUND, h')"
      unfolding fill_network_batch_size_def .
  qed
qed

lemma example_table_fits:
  "length (m_network_index_map (example_manager [''a'', ''b'', ''c''] sizes chans)) \<le>
     length (batch_size (zero_application_header example_constants)) \<and>
   length (m_network_index_map (example_manager [''a'', ''b'', ''c''] sizes chans)) \<le> 255"
  by (simp add: example_manager_def zero_application_header_def example_constants_def)

theorem fill_network_batch_size_by_table_index_witness:
  "(\<exists>h'. fill_network_batch_size example_constants
       (example_manager [''a'', ''b'', ''c''] [(''a'', 4), (''c'', 2)] ([] :: (ChannelId \<times> unit) list))
       (zero_application_header example_constants) = Some (HAILO_SUCCESS, h') \<and>
     take 3 (batch_size h') = [4, 0, 2]) \<and>
   (\<exists>h'. fill_network_batch_size example_constants
       (example_manager [''a'', ''b'', ''c''] [(''a'', 4), (''d'', 2)] ([] :: (ChannelId \<times> unit) list))
       (zero_application_header example_constants) = Some (HAILO_NOT_FOUND, h'))"
proof -
  let ?c = example_constants
  let ?h = "zero_application_header ?c"
  let ?m = "example_manager [''a'', ''b'', ''c''] [(''a'', 4), (''c'', 2)]
    ([] :: (ChannelId \<times> unit) list)"
  let ?m' = "example_manager [''a'', ''b'', ''c''] [(''a'', 4), (''d'', 2)]
    ([] :: (ChannelId \<times> unit) list)"
  have fits: "length (m_network_index_map ?m) \<le> length (batch_size ?h)"
    "length (m_network_index_map ?m) \<le> 255"
    "length (m_network_index_map ?m') \<le> length (batch_size ?h)"
    "length (m_network_index_map ?m') \<le> 255"
    using example_table_fits by blast+
  have sub: "fst ` set (network_params_by_name (m_config_params ?m)) \<subseteq>
      set (m_network_index_map ?m)"
    by (simp add: example_manager_def)
  have nsub: "\<not> fst ` set (network_params_by_name (m_config_params ?m')) \<subseteq>
      set (m_network_index_map ?m')"
    by (simp add: example_manager_def)
  from fill_network_batch_size_by_table_index [OF fits(1,2), of ?c] sub
  obtain h' where h': "fill_network_batch_size ?c ?m ?h = Some (HAILO_SUCCESS, h')"
    "length (batch_size h') = length (batch_size ?h)"
    "\<forall>i < length (batch_size ?h).
       if i < length (m_network_index_map ?m) \<and>
          table_index (m_network_index_map ?m) (m_network_index_map ?m ! i) = i \<and>
          m_network_index_map ?m ! i \<in> fst ` set (network_params_by_name (m_config_params ?m))
       then get_network_batch_size ?c ?m (m_network_index_map ?m ! i) = Inr (batch_size h' ! i)
       else batch_size h' ! i = batch_size ?h ! i"
    by blast
  have len: "length (batch_size h') = 8"
    using h'(2) by (simp add: zero_application_header_def example_constants_def)
  have e0: "batch_size h' ! 0 = 4"
    using h'(3) [rule_format, of 0]
    by (simp add: example_manager_def zero_application_header_def example_constants_def
        get_network_batch_size_def)
  have e1: "batch_size h' ! 1 = 0"
    using h'(3) [rule_format, of 1]
    by (simp add: example_manager_def zero_application_header_def example_constants_def
        get_network_batch_size_def)
  have e2: "batch_size h' ! 2 = 2"
    using h'(3) [rule_format, of 2]
    by (simp add: example_manager_def zero_application_header_def example_constants_def
        get_network_batch_size_def)
  have "take 3 (batch_size h') = [4, 0, 2]"
    using len e0 e1 e2 by (intro nth_equalityI) (auto simp: less_Suc_eq numeral_3_eq_3 numeral_2_eq_2)
  with h'(1) have first: "\<exists>h'. fill_network_batch_size ?c ?m ?h = Some (HAILO_SUCCESS, h') \<and>
      take 3 (batch_size h') = [4, 0, 2]"
    by blast
  from fill_network_batch_size_by_table_index [OF fits(3,4), of ?c] nsub
  have "\<exists>h'. fill_network_batch_size ?c ?m' ?h = Some (HAILO_NOT_FOUND, h')"
    by blast
  with first show ?thesis by blast
qed

section \<open>The configuration handshake\<close>

lemma get_network_batch_size_configured:
  assumes "n \<in> fst ` set (network_params_by_name (m_config_params m))"
  shows "\<exists>b. get_network_batch_size c m n = Inr b"
proof -
  from assms obtain p where "map_of (network_params_by_name (m_config_params m)) n = Some p"
    by (metis domD dom_map_of_conv_image_fst)
  then show ?thesis
    by (simp add: get_network_batch_size_def get_network_batch_size_loop_map_of)
qed

lemma fill_network_batch_size_returns:
  assumes "length (m_network_index_map m) \<le> length (batch_size h)"
    and "length (m_network_index_map m) \<le> 255"
  shows "\<exists>status h'. fill_network_batch_size c m h = Some (status, h')"
proof -
  let ?ps = "network_params_by_name (m_config_params m)"
  let ?h0 = "h\<lparr>networks_count := of_nat (length ?ps)\<rparr>"
  have known: "\<forall>n \<in> fst ` set ?ps. \<exists>b. get_network_batch_size c m n = Inr b"
    using get_network_batch_size_configured by blast
  have b0: "length (m_network_index_map m) \<le> length (batch_size ?h0)"
    "length (m_network_index_map m) \<le> 255"
    using assms by simp_all
  show ?thesis
  proof (cases "fst ` set ?ps \<subseteq> set (m_network_index_map m)")
    case True
    from fill_network_batch_size_loop_success [OF b0 True known] show ?thesis
      unfolding fill_network_batch_size_def by blast
  next
    case False
    from fill_network_batch_size_loop_not_found [OF b0 False known] show ?thesis
      unfolding fill_network_batch_size_def by blast
  qed
qed

lemma get_control_core_op_header_returns:
  assumes "length (m_network_index_map m) \<le> MAX_NETWORKS_PER_NETWORK_GROUP c"
    and "length (m_network_index_map m) \<le> 255"
  shows "\<exists>r. get_control_core_op_header c m = Some r"
proof -
  let ?h2 = "(zero_application_header c)
    \<lparr>dynamic_contexts_count := m_dynamic_context_count m,
      infer_features_preliminary_run_asap := preliminary_run_asap (m_core_op_metadata m),
      validation_features_is_abbale_supported := False\<rparr>"
  have "length (m_network_index_map m) \<le> length (batch_size ?h2)"
    using assms(1) by (simp add: zero_application_header_def)
  from fill_network_batch_size_returns [OF this assms(2), of c]
  obtain status h' where "fill_network_batch_size c m ?h2 = Some (status, h')" by blast
  then show ?thesis
    by (simp add: get_control_core_op_header_def fill_infer_features_def
        fill_validation_features_def fill_csm_buffer_size_def)
qed

lemma configure_contexts_answers:
  fixes ctxs :: "'cb ContextResources list"
  defines "msgs \<equiv> map (\<lambda>context. SET_CONTEXT_INFO (m_builder_controls context)) ctxs"
  shows "((\<forall>j < length msgs. firmware_answer x dev msgs j = HAILO_SUCCESS) \<longrightarrow>
       configure_contexts x dev ctxs =
         (HAILO_SUCCESS, dev\<lparr>transmitted := transmitted dev @ msgs\<rparr>)) \<and>
    (\<forall>j < length msgs.
       firmware_answer x dev msgs j \<noteq> HAILO_SUCCESS \<and>
       (\<forall>i < j. firmware_answer x dev msgs i = HAILO_SUCCESS) \<longrightarrow>
       configure_contexts x dev ctxs =
         (firmware_answer x dev msgs j,
          dev\<lparr>transmitted := transmitted dev @ take (Suc j) msgs\<rparr>))"
  unfolding msgs_def
proof (induction ctxs arbitrary: dev)
  case Nil
  then show ?case by simp
next
  case (Cons ctx ctxs)
  let ?msg = "SET_CONTEXT_INFO (m_builder_controls ctx)"
  let ?rest = "map (\<lambda>context. SET_CONTEXT_INFO (m_builder_controls context)) ctxs"
  let ?dev' = "dev\<lparr>transmitted := transmitted dev @ [?msg]\<rparr>"
  let ?a = "firmware_answer x dev (?msg # ?rest)"
  have shift: "?a (Suc j) = firmware_answer x ?dev' ?rest j" for j
    by (simp add: firmware_answer_def)
  have first: "?a 0 = firmware_status x (transmitted dev @ [?msg])"
    by (simp add: firmware_answer_def)
  show ?case
  proof (cases "?a 0 = HAILO_SUCCESS")
    case False
    then have res: "configure_contexts x dev (ctx # ctxs) = (?a 0, ?dev')"
      by (simp add: first context_switch_set_context_info_def Control_transmit_def)
    have "j = 0" if "\<forall>i < j. ?a i = HAILO_SUCCESS" for j
      using that False by (cases j) auto
    with res False show ?thesis by auto
  next
    case True
    then have step: "configure_contexts x dev (ctx # ctxs) = configure_contexts x ?dev' ctxs"
      by (simp add: first context_switch_set_context_info_def Control_transmit_def)
    note ih = Cons.IH [of ?dev']
    have accepted: "configure_contexts x dev (ctx # ctxs) =
          (HAILO_SUCCESS, dev\<lparr>transmitted := transmitted dev @ ?msg # ?rest\<rparr>)"
      if all: "\<forall>j < Suc (length ?rest). ?a j = HAILO_SUCCESS"
    proof -
      have "\<forall>j < length ?rest. firmware_answer x ?dev' ?rest j = HAILO_SUCCESS"
        using all shift by (metis Suc_less_eq)
      with ih step show ?thesis by simp
    qed
    have refused: "configure_contexts x dev (ctx # ctxs) =
          (?a j, dev\<lparr>transmitted := transmitted dev @ take (Suc j) (?msg # ?rest)\<rparr>)"
      if j: "j < Suc (length ?rest)"
        and no: "?a j \<noteq> HAILO_SUCCESS" and before: "\<forall>i < j. ?a i = HAILO_SUCCESS" for j
    proof -
      from True no obtain j' where j': "j = Suc j'" by (cases j) auto
      with j have "j' < length ?rest" by simp
      moreover have "firmware_answer x ?dev' ?rest j' \<noteq> HAILO_SUCCESS"
        using no j' shift by metis
      moreover have "\<forall>i < j'. firmware_answer x ?dev' ?rest i = HAILO_SUCCESS"
        using before j' shift by (metis Suc_less_eq)
      ultimately have "configure_contexts x ?dev' ctxs =
          (firmware_answer x ?dev' ?rest j',
           ?dev'\<lparr>transmitted := transmitted ?dev' @ take (Suc j') ?rest\<rparr>)"
        using ih by blast
      with step j' shift [of j'] show ?thesis by simp
    qed
    from accepted refused show ?thesis by simp
  qed
qed


lemma configure_latched:
  "m_is_configured m \<Longrightarrow> configure x c m = Some (HAILO_INTERNAL_FAILURE, m)"
  by (simp add: configure_def)

lemma configure_sets_latch:
  "configure x c m = Some (status, m1) \<Longrightarrow> m_is_configured m1"
  by (auto simp: configure_def Let_def split: if_splits option.splits sum.splits prod.splits)

lemma get_control_core_op_header_latch:
  "get_control_core_op_header c (m\<lparr>m_is_configured := b\<rparr>) = get_control_core_op_header c m"
proof -
  have "fill_network_batch_size c (m\<lparr>m_is_configured := b\<rparr>) h =
      fill_network_batch_size c m h" for h
    unfolding fill_network_batch_size_def
    by (simp add: fill_network_batch_size_loop_cong [of "m\<lparr>m_is_configured := b\<rparr>" m]
        get_network_batch_size_def)
  then show ?thesis
    by (auto simp: get_control_core_op_header_def fill_infer_features_def
        fill_validation_features_def fill_csm_buffer_size_def split: option.splits)
qed

lemma configure_transmits:
  assumes fresh: "\<not> m_is_configured m"
    and header: "get_control_core_op_header c m = Some (Inr header)"
  defines "msgs \<equiv> configure_messages header (m_contexts_resources m)"
  shows "((\<forall>j < length msgs. firmware_answer x (m_vdma_device m) msgs j = HAILO_SUCCESS) \<longrightarrow>
       configure x c m =
         Some (HAILO_SUCCESS,
           m\<lparr>m_is_configured := True,
             m_vdma_device := (m_vdma_device m)
               \<lparr>transmitted := transmitted (m_vdma_device m) @ msgs\<rparr>\<rparr>)) \<and>
    (\<forall>j < length msgs.
       firmware_answer x (m_vdma_device m) msgs j \<noteq> HAILO_SUCCESS \<and>
       (\<forall>i < j. firmware_answer x (m_vdma_device m) msgs i = HAILO_SUCCESS) \<longrightarrow>
       configure x c m =
         Some (firmware_answer x (m_vdma_device m) msgs j,
           m\<lparr>m_is_configured := True,
             m_vdma_device := (m_vdma_device m)
               \<lparr>transmitted := transmitted (m_vdma_device m) @ take (Suc j) msgs\<rparr>\<rparr>))"
proof -
  let ?dev = "m_vdma_device m"
  let ?msg = "SET_NETWORK_GROUP_HEADER header"
  let ?rest = "map (\<lambda>context. SET_CONTEXT_INFO (m_builder_controls context))
    (m_contexts_resources m)"
  let ?dev' = "?dev\<lparr>transmitted := transmitted ?dev @ [?msg]\<rparr>"
  let ?a = "firmware_answer x ?dev (?msg # ?rest)"
  let ?m1 = "m\<lparr>m_is_configured := True\<rparr>"
  have msgs: "msgs = ?msg # ?rest"
    by (simp add: msgs_def configure_messages_def)
  have shift: "?a (Suc j) = firmware_answer x ?dev' ?rest j" for j
    by (simp add: firmware_answer_def)
  have first: "?a 0 = firmware_status x (transmitted ?dev @ [?msg])"
    by (simp add: firmware_answer_def)
  show ?thesis
  proof (cases "?a 0 = HAILO_SUCCESS")
    case False
    with fresh header have res: "configure x c m = Some (?a 0, ?m1\<lparr>m_vdma_device := ?dev'\<rparr>)"
      by (simp add: first configure_def context_switch_set_network_group_header_def
          Control_transmit_def get_control_core_op_header_latch)
    have "j = 0" if "\<forall>i < j. ?a i = HAILO_SUCCESS" for j
      using that False by (cases j) auto
    with res False show ?thesis unfolding msgs by auto
  next
    case True
    let ?r = "configure_contexts x ?dev' (m_contexts_resources m)"
    from fresh header True
    have step: "configure x c m = Some (fst ?r, ?m1\<lparr>m_vdma_device := snd ?r\<rparr>)"
      by (simp add: first configure_def context_switch_set_network_group_header_def
          Control_transmit_def get_control_core_op_header_latch split: prod.splits)
    note ctxs = configure_contexts_answers [of "m_contexts_resources m" x ?dev']
    have accepted: "configure x c m =
        Some (HAILO_SUCCESS,
          ?m1\<lparr>m_vdma_device := ?dev\<lparr>transmitted := transmitted ?dev @ ?msg # ?rest\<rparr>\<rparr>)"
      if all: "\<forall>j < Suc (length ?rest). ?a j = HAILO_SUCCESS"
    proof -
      have "\<forall>j < length ?rest. firmware_answer x ?dev' ?rest j = HAILO_SUCCESS"
        using all shift by (metis Suc_less_eq)
      with ctxs have "?r = (HAILO_SUCCESS, ?dev'\<lparr>transmitted := transmitted ?dev' @ ?rest\<rparr>)"
        by blast
      with step show ?thesis by simp
    qed
    have refused: "configure x c m =
        Some (?a j,
          ?m1\<lparr>m_vdma_device := ?dev
            \<lparr>transmitted := transmitted ?dev @ take (Suc j) (?msg # ?rest)\<rparr>\<rparr>)"
      if j: "j < Suc (length ?rest)"
        and no: "?a j \<noteq> HAILO_SUCCESS" and before: "\<forall>i < j. ?a i = HAILO_SUCCESS" for j
    proof -
      from True no obtain j' where j': "j = Suc j'" by (cases j) auto
      with j have "j' < length ?rest" by simp
      moreover have "firmware_answer x ?dev' ?rest j' \<noteq> HAILO_SUCCESS"
        using no j' shift by metis
      moreover have "\<forall>i < j'. firmware_answer x ?dev' ?rest i = HAILO_SUCCESS"
        using before j' shift by (metis Suc_less_eq)
      ultimately have "?r = (firmware_answer x ?dev' ?rest j',
           ?dev'\<lparr>transmitted := transmitted ?dev' @ take (Suc j') ?rest\<rparr>)"
        using ctxs by blast
      with step j' shift [of j'] show ?thesis by simp
    qed
    from accepted refused show ?thesis unfolding msgs by simp
  qed
qed

text \<open>
  C1. On a manager that is not configured, whose network-name table fits the header's
  fixed-size array and the range of the \<open>uint8_t\<close> network index, the first call of
  \<open>configure\<close> returns and goes on past the latch, and leaves the manager as it was but
  for the latch and the device. When the assembly of the header failed it returns that
  status and transmits nothing. Otherwise it transmits the messages of the
  configuration in order, the application header and then the instructions of each
  stage in stage order, and stops at the first one the firmware refuses: when the
  firmware accepts each message as it comes, all of them are transmitted and the status
  is success; when the message of position \<open>j\<close> is the first one refused, the messages
  up to that one are transmitted and the status is the firmware's answer to it. A second
  call on the manager the first call left, whatever the collaborators do, returns the
  internal-failure status and leaves that manager, device included, as it was.
\<close>

theorem configure_once:
  assumes "\<not> m_is_configured m"
    and "length (m_network_index_map m) \<le> MAX_NETWORKS_PER_NETWORK_GROUP c"
    and "length (m_network_index_map m) \<le> 255"
  shows "\<exists>r status m1.
      get_control_core_op_header c m = Some r \<and>
      configure x c m = Some (status, m1) \<and>
      m1 = m\<lparr>m_is_configured := True, m_vdma_device := m_vdma_device m1\<rparr> \<and>
      configure x' c' m1 = Some (HAILO_INTERNAL_FAILURE, m1) \<and>
      (case r of
         Inl header_status \<Rightarrow>
           status = header_status \<and> m_vdma_device m1 = m_vdma_device m
       | Inr header \<Rightarrow>
           ((\<forall>j < length (configure_messages header (m_contexts_resources m)).
               firmware_answer x (m_vdma_device m)
                 (configure_messages header (m_contexts_resources m)) j = HAILO_SUCCESS) \<longrightarrow>
            status = HAILO_SUCCESS \<and>
            transmitted (m_vdma_device m1) =
              transmitted (m_vdma_device m) @
              configure_messages header (m_contexts_resources m)) \<and>
           (\<forall>j < length (configure_messages header (m_contexts_resources m)).
              firmware_answer x (m_vdma_device m)
                (configure_messages header (m_contexts_resources m)) j \<noteq> HAILO_SUCCESS \<and>
              (\<forall>i < j. firmware_answer x (m_vdma_device m)
                 (configure_messages header (m_contexts_resources m)) i = HAILO_SUCCESS) \<longrightarrow>
              status = firmware_answer x (m_vdma_device m)
                (configure_messages header (m_contexts_resources m)) j \<and>
              transmitted (m_vdma_device m1) =
                transmitted (m_vdma_device m) @
                take (Suc j) (configure_messages header (m_contexts_resources m))))"
proof -
  from get_control_core_op_header_returns [OF assms(2,3)]
  obtain r where r: "get_control_core_op_header c m = Some r" by blast
  show ?thesis
  proof (cases r)
    case (Inl e)
    with assms(1) r have "configure x c m = Some (e, m\<lparr>m_is_configured := True\<rparr>)"
      by (simp add: configure_def get_control_core_op_header_latch)
    with Inl r show ?thesis
      by (simp add: configure_latched)
  next
    case (Inr header)
    let ?msgs = "configure_messages header (m_contexts_resources m)"
    let ?a = "firmware_answer x (m_vdma_device m) ?msgs"
    note sent = configure_transmits [OF assms(1) r [unfolded Inr], of x]
    have "\<exists>status dev. configure x c m =
        Some (status, m\<lparr>m_is_configured := True, m_vdma_device := dev\<rparr>)"
    proof -
      obtain s1 d1 where h: "context_switch_set_network_group_header x (m_vdma_device m) header =
          (s1, d1)"
        by (cases "context_switch_set_network_group_header x (m_vdma_device m) header")
      obtain s2 d2 where k: "configure_contexts x d1 (m_contexts_resources m) = (s2, d2)"
        by (cases "configure_contexts x d1 (m_contexts_resources m)")
      show ?thesis
        using assms(1) r Inr h k
        by (cases "s1 = HAILO_SUCCESS")
          (auto simp: configure_def get_control_core_op_header_latch)
    qed
    then obtain status dev where run0: "configure x c m =
        Some (status, m\<lparr>m_is_configured := True, m_vdma_device := dev\<rparr>)"
      by blast
    define m1 where "m1 = m\<lparr>m_is_configured := True, m_vdma_device := dev\<rparr>"
    have run: "configure x c m = Some (status, m1)"
      using run0 by (simp add: m1_def)
    have frame: "m1 = m\<lparr>m_is_configured := True, m_vdma_device := m_vdma_device m1\<rparr>"
      by (simp add: m1_def)
    have latch: "configure x' c' m1 = Some (HAILO_INTERNAL_FAILURE, m1)"
      using configure_sets_latch [OF run] by (rule configure_latched)
    have accepted: "status = HAILO_SUCCESS \<and>
        transmitted (m_vdma_device m1) = transmitted (m_vdma_device m) @ ?msgs"
      if "\<forall>j < length ?msgs. ?a j = HAILO_SUCCESS"
      using sent that run by auto
    have refused: "status = ?a j \<and>
        transmitted (m_vdma_device m1) = transmitted (m_vdma_device m) @ take (Suc j) ?msgs"
      if "j < length ?msgs" "?a j \<noteq> HAILO_SUCCESS" "\<forall>i < j. ?a i = HAILO_SUCCESS" for j
    proof -
      from sent that have "configure x c m =
         Some (?a j,
           m\<lparr>m_is_configured := True,
             m_vdma_device := (m_vdma_device m)
               \<lparr>transmitted := transmitted (m_vdma_device m) @ take (Suc j) ?msgs\<rparr>\<rparr>)"
        by blast
      with run show ?thesis by auto
    qed
    from r Inr run frame latch accepted refused show ?thesis
      by (intro exI [of _ r] exI [of _ status] exI [of _ m1]) simp
  qed
qed


lemma zero_application_header_example:
  "zero_application_header example_constants =
     \<lparr>dynamic_contexts_count = 0, infer_features_preliminary_run_asap = False,
      validation_features_is_abbale_supported = False, networks_count = 0,
      batch_size = [0, 0, 0, 0, 0, 0, 0, 0], csm_buffer_size = 0\<rparr>"
  by (simp add: zero_application_header_def example_constants_def eval_nat_numeral)

lemma example_header_assembled:
  "get_control_core_op_header example_constants
     (example_two_stage_manager [(''a'', 4), (''c'', 2)]) = Some (Inr example_header)"
  unfolding zero_application_header_example get_control_core_op_header_def
  by (simp add: fill_infer_features_def fill_validation_features_def fill_csm_buffer_size_def
      fill_network_batch_size_def example_two_stage_manager_def example_manager_def
      example_constants_def fill_network_batch_size_inner_eq get_network_batch_size_def
      example_header_def)

lemma example_two_stage_messages:
  "configure_messages example_header (m_contexts_resources (example_two_stage_manager sizes)) =
     [SET_NETWORK_GROUP_HEADER example_header, SET_CONTEXT_INFO [[1], [2]],
      SET_CONTEXT_INFO [[3]]]"
  by (simp add: configure_messages_def example_two_stage_manager_def example_manager_def
      example_stage_def)

theorem configure_once_witness:
  "(\<exists>m1. configure
       (example_collaborators
          (\<lambda>l. if length l < 7 then HAILO_SUCCESS else HAILO_INVALID_OPERATION) HAILO_SUCCESS 1)
       example_constants (example_two_stage_manager [(''a'', 4), (''c'', 2)]) =
       Some (HAILO_SUCCESS, m1) \<and>
     transmitted (m_vdma_device m1) =
       [SET_NETWORK_GROUP_HEADER example_header, SET_CONTEXT_INFO [[1], [2]],
        SET_CONTEXT_INFO [[3]]] \<and>
     configure (example_collaborators (\<lambda>l. HAILO_SUCCESS) HAILO_SUCCESS 1) example_constants m1 =
       Some (HAILO_INTERNAL_FAILURE, m1)) \<and>
   (\<exists>m1. configure
       (example_collaborators
          (\<lambda>l. if length l < 2 then HAILO_SUCCESS else HAILO_INVALID_OPERATION) HAILO_SUCCESS 1)
       example_constants (example_two_stage_manager [(''a'', 4), (''c'', 2)]) =
       Some (HAILO_INVALID_OPERATION, m1) \<and>
     transmitted (m_vdma_device m1) =
       [SET_NETWORK_GROUP_HEADER example_header, SET_CONTEXT_INFO [[1], [2]]] \<and>
     configure (example_collaborators (\<lambda>l. HAILO_SUCCESS) HAILO_SUCCESS 1) example_constants m1 =
       Some (HAILO_INTERNAL_FAILURE, m1))"
proof -
  let ?ok = "example_collaborators (\<lambda>l. HAILO_SUCCESS) HAILO_SUCCESS 1"
  let ?x = "example_collaborators
    (\<lambda>l. if length l < 7 then HAILO_SUCCESS else HAILO_INVALID_OPERATION) HAILO_SUCCESS 1"
  let ?y = "example_collaborators
    (\<lambda>l. if length l < 2 then HAILO_SUCCESS else HAILO_INVALID_OPERATION) HAILO_SUCCESS 1"
  let ?m = "example_two_stage_manager [(''a'', 4), (''c'', 2)]"
  let ?msgs = "[SET_NETWORK_GROUP_HEADER example_header, SET_CONTEXT_INFO [[1], [2]],
        SET_CONTEXT_INFO [[3]]]"
  have fresh: "\<not> m_is_configured ?m"
    by (simp add: example_two_stage_manager_def example_manager_def)
  have fits: "length (m_network_index_map ?m) \<le> MAX_NETWORKS_PER_NETWORK_GROUP example_constants"
    "length (m_network_index_map ?m) \<le> 255"
    by (simp_all add: example_two_stage_manager_def example_manager_def example_constants_def)
  have quiet: "transmitted (m_vdma_device ?m) = []"
    by (simp add: example_two_stage_manager_def example_manager_def)
  have all_accepted: "\<forall>j < length ?msgs. firmware_answer ?x (m_vdma_device ?m) ?msgs j = HAILO_SUCCESS"
    by (simp add: firmware_answer_def example_collaborators_def quiet)
  have second_refused: "firmware_answer ?y (m_vdma_device ?m) ?msgs 1 = HAILO_INVALID_OPERATION"
    "\<forall>i < 1. firmware_answer ?y (m_vdma_device ?m) ?msgs i = HAILO_SUCCESS"
    by (simp_all add: firmware_answer_def example_collaborators_def quiet)
  from configure_once [OF fresh fits, of ?x ?ok example_constants]
  have "\<exists>m1. configure ?x example_constants ?m = Some (HAILO_SUCCESS, m1) \<and>
      transmitted (m_vdma_device m1) = ?msgs \<and>
      configure ?ok example_constants m1 = Some (HAILO_INTERNAL_FAILURE, m1)"
    using all_accepted
    by (auto simp: example_header_assembled example_two_stage_messages quiet)
  moreover
  from configure_once [OF fresh fits, of ?y ?ok example_constants]
  obtain status m1 where second: "configure ?y example_constants ?m = Some (status, m1)"
    "configure ?ok example_constants m1 = Some (HAILO_INTERNAL_FAILURE, m1)"
    "\<forall>j < length ?msgs.
       firmware_answer ?y (m_vdma_device ?m) ?msgs j \<noteq> HAILO_SUCCESS \<and>
       (\<forall>i < j. firmware_answer ?y (m_vdma_device ?m) ?msgs i = HAILO_SUCCESS) \<longrightarrow>
       status = firmware_answer ?y (m_vdma_device ?m) ?msgs j \<and>
       transmitted (m_vdma_device m1) = transmitted (m_vdma_device ?m) @ take (Suc j) ?msgs"
    by (auto simp: example_header_assembled example_two_stage_messages)
  from second(3) [rule_format, of 1] second_refused
  have "status = HAILO_INVALID_OPERATION \<and>
      transmitted (m_vdma_device m1) =
        [SET_NETWORK_GROUP_HEADER example_header, SET_CONTEXT_INFO [[1], [2]]]"
    by (simp add: quiet)
  with second(1,2) have "\<exists>m1. configure ?y example_constants ?m =
        Some (HAILO_INVALID_OPERATION, m1) \<and>
      transmitted (m_vdma_device m1) =
        [SET_NETWORK_GROUP_HEADER example_header, SET_CONTEXT_INFO [[1], [2]]] \<and>
      configure ?ok example_constants m1 = Some (HAILO_INTERNAL_FAILURE, m1)"
    by blast
  ultimately show ?thesis by blast
qed

lemma configure_repeatedly_latched:
  "m_is_configured m \<Longrightarrow>
     configure_repeatedly xs c m = Some (replicate (length xs) HAILO_INTERNAL_FAILURE, m)"
  by (induction xs) (simp_all add: configure_latched)

text \<open>
  C9. \<open>configure\<close> sets the latch before it assembles or transmits anything: whatever
  status the first call returns, a failure of the header assembly or of a transmission
  included, the manager it leaves is latched, and every later call of \<open>configure\<close> on
  it, however many and whatever the collaborators do, returns the internal-failure
  status and leaves the manager as it was.
\<close>

theorem configure_latch_survives_failure:
  assumes "configure x c m = Some (status, m1)"
  shows "m_is_configured m1 \<and>
    configure_repeatedly xs c' m1 = Some (replicate (length xs) HAILO_INTERNAL_FAILURE, m1)"
  using assms configure_sets_latch configure_repeatedly_latched by blast

lemma example_header_not_found:
  "get_control_core_op_header example_constants
     (example_two_stage_manager [(''a'', 4), (''d'', 2)]) = Some (Inl HAILO_NOT_FOUND)"
  unfolding zero_application_header_example get_control_core_op_header_def
  by (simp add: fill_infer_features_def fill_validation_features_def fill_csm_buffer_size_def
      fill_network_batch_size_def example_two_stage_manager_def example_manager_def
      example_constants_def fill_network_batch_size_inner_eq get_network_batch_size_def)

theorem configure_latch_survives_failure_witness:
  "\<exists>m1. configure (example_collaborators (\<lambda>l. HAILO_SUCCESS) HAILO_SUCCESS 1) example_constants
       (example_two_stage_manager [(''a'', 4), (''d'', 2)]) = Some (HAILO_NOT_FOUND, m1) \<and>
     transmitted (m_vdma_device m1) = [] \<and>
     m_is_configured m1 \<and>
     configure_repeatedly
       [example_collaborators (\<lambda>l. HAILO_SUCCESS) HAILO_SUCCESS 1,
        example_collaborators (\<lambda>l. HAILO_SUCCESS) HAILO_SUCCESS 1] example_constants m1 =
       Some ([HAILO_INTERNAL_FAILURE, HAILO_INTERNAL_FAILURE], m1)"
proof -
  let ?x = "example_collaborators (\<lambda>l. HAILO_SUCCESS) HAILO_SUCCESS 1"
  let ?m = "example_two_stage_manager [(''a'', 4), (''d'', 2)]"
  let ?m1 = "?m\<lparr>m_is_configured := True\<rparr>"
  have fresh: "\<not> m_is_configured ?m"
    by (simp add: example_two_stage_manager_def example_manager_def)
  have first: "configure ?x example_constants ?m = Some (HAILO_NOT_FOUND, ?m1)"
    using example_header_not_found fresh
    by (simp add: configure_def get_control_core_op_header_latch)
  have quiet: "transmitted (m_vdma_device ?m1) = []"
    by (simp add: example_two_stage_manager_def example_manager_def)
  from configure_latch_survives_failure [OF first, of "[?x, ?x]" example_constants]
  have "m_is_configured ?m1 \<and>
    configure_repeatedly [?x, ?x] example_constants ?m1 =
      Some ([HAILO_INTERNAL_FAILURE, HAILO_INTERNAL_FAILURE], ?m1)"
    by simp
  with first quiet show ?thesis by blast
qed

section \<open>Building a stage\<close>

text \<open>
  C6, as the source has it. Building a stage with more config buffers than there are
  pre-allocated config-channel ids fails and leaves the manager as it was. The status is
  the internal-failure one when the context type is in range and the total context
  count is below 255; the two earlier checks come first: the invalid-context-count
  status when the counter is at 255, the invalid-argument status when the context type
  is out of range.
\<close>

theorem add_new_context_too_many_config_buffers:
  assumes "length (m_config_channels_ids m) < length config_info"
  shows "add_new_context x c m context_type config_info =
      Some (Inl (if \<not> m_total_context_count m < 255 then HAILO_INVALID_CONTEXT_COUNT
                 else if \<not> context_type < CONTEXT_TYPE_COUNT c then HAILO_INVALID_ARGUMENT
                 else HAILO_INTERNAL_FAILURE), m) \<and>
    ContextResources_create x c (m_driver m) context_type (m_config_channels_ids m) config_info =
      Some (Inl (if \<not> context_type < CONTEXT_TYPE_COUNT c then HAILO_INVALID_ARGUMENT
                 else HAILO_INTERNAL_FAILURE))"
  using assms by (simp add: add_new_context_def ContextResources_create_def)

theorem add_new_context_too_many_config_buffers_witness:
  "add_new_context (example_collaborators (\<lambda>l. HAILO_SUCCESS) HAILO_SUCCESS 1) example_constants
     (example_two_stage_manager []) 1 [(0, [64])] =
     Some (Inl HAILO_INTERNAL_FAILURE, example_two_stage_manager []) \<and>
   add_new_context (example_collaborators (\<lambda>l. HAILO_SUCCESS) HAILO_SUCCESS 1) example_constants
     (example_two_stage_manager []) 7 [(0, [64])] =
     Some (Inl HAILO_INVALID_ARGUMENT, example_two_stage_manager [])"
proof -
  let ?x = "example_collaborators (\<lambda>l. HAILO_SUCCESS) HAILO_SUCCESS 1"
  let ?m = "example_two_stage_manager []"
  have more: "length (m_config_channels_ids ?m) < length [(0 :: 8 word, [64 :: 32 word])]"
    by (simp add: example_two_stage_manager_def example_manager_def)
  have room: "m_total_context_count ?m < 255"
    by (simp add: example_two_stage_manager_def example_manager_def)
  have types: "(1 :: nat) < CONTEXT_TYPE_COUNT example_constants"
    "\<not> (7 :: nat) < CONTEXT_TYPE_COUNT example_constants"
    by (simp_all add: example_constants_def)
  show ?thesis
    using add_new_context_too_many_config_buffers [OF more, of ?x example_constants 1]
      add_new_context_too_many_config_buffers [OF more, of ?x example_constants 7]
      room types
    by simp
qed

theorem add_new_context_invalid_argument_counterexample:
  "length (m_config_channels_ids (example_two_stage_manager [])) <
     length [(0 :: 8 word, [64 :: 32 word])] \<and>
   add_new_context (example_collaborators (\<lambda>l. HAILO_SUCCESS) HAILO_SUCCESS 1) example_constants
     (example_two_stage_manager []) 1 [(0, [64])] =
     Some (Inl HAILO_INTERNAL_FAILURE, example_two_stage_manager []) \<and>
   ContextResources_create (example_collaborators (\<lambda>l. HAILO_SUCCESS) HAILO_SUCCESS 1)
     example_constants (m_driver (example_two_stage_manager [])) 1
     (m_config_channels_ids (example_two_stage_manager [])) [(0, [64])] =
     Some (Inl HAILO_INTERNAL_FAILURE) \<and>
   HAILO_INTERNAL_FAILURE \<noteq> HAILO_INVALID_ARGUMENT"
  by (simp add: add_new_context_def ContextResources_create_def example_two_stage_manager_def
      example_manager_def example_constants_def)

section \<open>Channel ids on a single-engine device\<close>

text \<open>
  C8. On a device of the PCIe DMA type, which has one engine,
  \<open>get_available_channel_id\<close> ignores the engine index requested: the allocator is
  asked for the default engine, so two requests that differ in the engine index only
  give the same result and leave the same manager.
\<close>

theorem get_available_channel_id_single_engine:
  assumes "dma_type (m_driver m) = PCIE"
  shows "get_available_channel_id x c m layer_identifier direction index1 =
      get_available_channel_id x c m layer_identifier direction index2 \<and>
    get_available_channel_id x c m layer_identifier direction index1 =
      (case allocator_get_available_channel_id x (m_channel_allocator m) layer_identifier
              direction (DEFAULT_ENGINE_INDEX c) of
         (result, allocator) \<Rightarrow> (result, m\<lparr>m_channel_allocator := allocator\<rparr>))"
  using assms by (simp add: get_available_channel_id_def)

theorem get_available_channel_id_single_engine_witness:
  "get_available_channel_id (example_collaborators (\<lambda>l. HAILO_SUCCESS) HAILO_SUCCESS 1)
     example_constants (example_two_stage_manager []) (BOUNDARY, ''in0'', 0) H2D 3 =
     (Inr \<lparr>engine_index = 0, channel_index = 0\<rparr>, example_two_stage_manager []) \<and>
   get_available_channel_id (example_collaborators (\<lambda>l. HAILO_SUCCESS) HAILO_SUCCESS 1)
     example_constants (example_two_stage_manager []) (BOUNDARY, ''in0'', 0) H2D 3 =
   get_available_channel_id (example_collaborators (\<lambda>l. HAILO_SUCCESS) HAILO_SUCCESS 1)
     example_constants (example_two_stage_manager []) (BOUNDARY, ''in0'', 0) H2D 1"
proof -
  let ?x = "example_collaborators (\<lambda>l. HAILO_SUCCESS) HAILO_SUCCESS 1"
  let ?m = "example_two_stage_manager []"
  have pcie: "dma_type (m_driver ?m) = PCIE"
    by (simp add: example_two_stage_manager_def example_manager_def)
  from get_available_channel_id_single_engine
      [OF pcie, of ?x example_constants "(BOUNDARY, ''in0'', 0)" H2D 3 1]
  have same: "get_available_channel_id ?x example_constants ?m (BOUNDARY, ''in0'', 0) H2D 3 =
      get_available_channel_id ?x example_constants ?m (BOUNDARY, ''in0'', 0) H2D 1"
    and forced: "get_available_channel_id ?x example_constants ?m (BOUNDARY, ''in0'', 0) H2D 3 =
      (case allocator_get_available_channel_id ?x (m_channel_allocator ?m)
              (BOUNDARY, ''in0'', 0) H2D (DEFAULT_ENGINE_INDEX example_constants) of
         (result, allocator) \<Rightarrow> (result, ?m\<lparr>m_channel_allocator := allocator\<rparr>))"
    by blast+
  have "(case allocator_get_available_channel_id ?x (m_channel_allocator ?m)
              (BOUNDARY, ''in0'', 0) H2D (DEFAULT_ENGINE_INDEX example_constants) of
         (result, allocator) \<Rightarrow> (result, ?m\<lparr>m_channel_allocator := allocator\<rparr>)) =
      (Inr \<lparr>engine_index = 0, channel_index = 0\<rparr>, ?m)"
    by (simp add: example_collaborators_def example_constants_def
        example_two_stage_manager_def example_manager_def)
  with forced have "get_available_channel_id ?x example_constants ?m (BOUNDARY, ''in0'', 0) H2D 3 =
      (Inr \<lparr>engine_index = 0, channel_index = 0\<rparr>, ?m)"
    by (simp only:)
  with same show ?thesis by (simp only: simp_thms)
qed

section \<open>Interrupt completion routing\<close>

lemma boundary_channel_assign_keys:
  "map fst (boundary_channel_assign k v chans) = map fst chans"
  by (induction chans) auto

lemma boundary_channel_assign_map_of:
  "map_of (boundary_channel_assign k v chans) k' =
     (if k' = k \<and> map_of chans k \<noteq> None then Some v else map_of chans k')"
  by (induction chans) auto

lemma completion_triggers_append:
  "completion_triggers (es @ fs) = completion_triggers es @ completion_triggers fs"
  by (induction es rule: completion_triggers.induct) simp_all

lemma irq_record_valid_keys:
  assumes "map fst chans' = map fst chans"
  shows "irq_record_valid chans' = irq_record_valid chans"
proof -
  have "dom (map_of chans') = dom (map_of chans)"
    using assms by (metis dom_map_of_conv_image_fst list.set_map)
  then have "(map_of chans' k \<noteq> None) = (map_of chans k \<noteq> None)" for k
    by (metis domIff)
  then show ?thesis
    by (simp add: irq_record_valid_def fun_eq_iff)
qed

lemma forwarded_counts_keys:
  assumes "map fst chans' = map fst chans"
  shows "forwarded_counts chans' k records = forwarded_counts chans k records"
  using irq_record_valid_keys [OF assms] by (simp add: forwarded_counts_def)

lemma process_channel_irq_data_keys:
  "map fst (fst (process_channel_irq_data x chans d)) = map fst chans"
  by (simp add: process_channel_irq_data_def boundary_channel_assign_keys
      split: option.splits prod.splits)

lemma process_channel_irq_data_triggers:
  "completion_triggers (snd (process_channel_irq_data x chans d)) =
     (if irq_record_valid chans d then [(irq_channel_id d, desc_num_processed d)] else [])"
  by (auto simp: process_channel_irq_data_def irq_record_valid_def
      split: option.splits prod.splits)

lemma process_channel_irq_data_channels:
  assumes "map_of chans k = Some ch"
  shows "map_of (fst (process_channel_irq_data x chans d)) k =
     Some (forward_completions x (forwarded_counts chans k [d]) ch)"
  using assms
  by (auto simp: process_channel_irq_data_def irq_record_valid_def forwarded_counts_def
      forward_completions_def boundary_channel_assign_map_of split: option.splits prod.splits)


lemma forward_completions_append:
  "forward_completions x (ns @ ns') ch = forward_completions x ns' (forward_completions x ns ch)"
  by (simp add: forward_completions_def)

lemma forwarded_counts_Cons:
  "forwarded_counts chans k (d # ds) = forwarded_counts chans k [d] @ forwarded_counts chans k ds"
  by (simp add: forwarded_counts_def)

lemma process_interrupts_loop_triggers:
  assumes "unat (channels_count irq_data) \<le> length (channels_irq_data irq_data)"
    and "unat i \<le> unat (channels_count irq_data)"
  shows "\<exists>chans' effects'.
      process_interrupts_loop x irq_data i chans effects = Some (chans', effects') \<and>
      map fst chans' = map fst chans \<and>
      completion_triggers effects' =
        completion_triggers effects @
        map (\<lambda>d. (irq_channel_id d, desc_num_processed d))
          (filter (irq_record_valid chans)
             (drop (unat i) (take (unat (channels_count irq_data)) (channels_irq_data irq_data)))) \<and>
      (\<forall>k ch. map_of chans k = Some ch \<longrightarrow>
         map_of chans' k =
           Some (forward_completions x
             (forwarded_counts chans k
                (drop (unat i)
                   (take (unat (channels_count irq_data)) (channels_irq_data irq_data)))) ch))"
  using assms(2)
proof (induction "unat (channels_count irq_data) - unat i" arbitrary: i chans effects)
  case 0
  then have "\<not> i < channels_count irq_data"
    by (simp add: word_less_nat_alt)
  with 0 show ?case
    by (simp add: process_interrupts_loop.simps [of x irq_data i] forwarded_counts_def
        forward_completions_def)
next
  case (Suc n)
  let ?count = "unat (channels_count irq_data)"
  let ?arr = "channels_irq_data irq_data"
  from Suc.hyps(2) have lt: "unat i < ?count" by simp
  then have wlt: "i < channels_count irq_data" by (simp add: word_less_nat_alt)
  have "?count < 256"
    using unsigned_less [of "channels_count irq_data", where ?'a = nat] by simp
  with lt have u: "unat (i + 1) = Suc (unat i)" by (simp add: unat_word_ariths)
  from lt assms(1) have inb: "unat i < length ?arr" by simp
  obtain chans1 new where step: "process_channel_irq_data x chans (?arr ! unat i) = (chans1, new)"
    by (cases "process_channel_irq_data x chans (?arr ! unat i)")
  have keys1: "map fst chans1 = map fst chans"
    using process_channel_irq_data_keys [of x chans "?arr ! unat i"] step by simp
  have trig1: "completion_triggers new =
      (if irq_record_valid chans (?arr ! unat i)
       then [(irq_channel_id (?arr ! unat i), desc_num_processed (?arr ! unat i))] else [])"
    using process_channel_irq_data_triggers [of x chans "?arr ! unat i"] step by simp
  have chan1: "map_of chans1 k =
      Some (forward_completions x (forwarded_counts chans k [?arr ! unat i]) ch)"
    if "map_of chans k = Some ch" for k ch
    using process_channel_irq_data_channels [OF that, of x "?arr ! unat i"] step by simp
  have unfold: "process_interrupts_loop x irq_data i chans effects =
      process_interrupts_loop x irq_data (i + 1) chans1 (effects @ new)"
    using wlt inb step by (simp add: process_interrupts_loop.simps [of x irq_data i])
  have "n = ?count - unat (i + 1)" "unat (i + 1) \<le> ?count"
    using Suc.hyps(2) lt u by simp_all
  from Suc.hyps(1) [OF this, of chans1 "effects @ new"]
  obtain chans' effects' where rest:
    "process_interrupts_loop x irq_data (i + 1) chans1 (effects @ new) = Some (chans', effects')"
    "map fst chans' = map fst chans1"
    "completion_triggers effects' =
        completion_triggers (effects @ new) @
        map (\<lambda>d. (irq_channel_id d, desc_num_processed d))
          (filter (irq_record_valid chans1) (drop (unat (i + 1)) (take ?count ?arr)))"
    "\<And>k ch. map_of chans1 k = Some ch \<Longrightarrow>
       map_of chans' k =
         Some (forward_completions x
           (forwarded_counts chans1 k (drop (unat (i + 1)) (take ?count ?arr))) ch)"
    by blast
  have dropc: "drop (unat i) (take ?count ?arr) =
      ?arr ! unat i # drop (unat (i + 1)) (take ?count ?arr)"
    using lt inb u by (simp add: Cons_nth_drop_Suc [symmetric])
  have trig: "completion_triggers effects' =
        completion_triggers effects @
        map (\<lambda>d. (irq_channel_id d, desc_num_processed d))
          (filter (irq_record_valid chans) (drop (unat i) (take ?count ?arr)))"
    using rest(3) trig1 irq_record_valid_keys [OF keys1]
    by (simp add: completion_triggers_append dropc)
  have chan: "map_of chans' k =
      Some (forward_completions x
        (forwarded_counts chans k (drop (unat i) (take ?count ?arr))) ch)"
    if k: "map_of chans k = Some ch" for k ch
  proof -
    have "map_of chans' k =
        Some (forward_completions x
          (forwarded_counts chans1 k (drop (unat (i + 1)) (take ?count ?arr)))
          (forward_completions x (forwarded_counts chans k [?arr ! unat i]) ch))"
      using rest(4) [OF chan1 [OF k]] .
    moreover have "forwarded_counts chans1 k (drop (unat (i + 1)) (take ?count ?arr)) =
        forwarded_counts chans k (drop (unat (i + 1)) (take ?count ?arr))"
      using keys1 by (rule forwarded_counts_keys)
    moreover have "forwarded_counts chans k (drop (unat i) (take ?count ?arr)) =
        forwarded_counts chans k [?arr ! unat i] @
        forwarded_counts chans k (drop (unat (i + 1)) (take ?count ?arr))"
      unfolding dropc by (rule forwarded_counts_Cons)
    ultimately show ?thesis
      by (simp only: forward_completions_append)
  qed
  from rest(1,2) keys1 unfold trig chan show ?case by simp
qed

text \<open>
  C5. Whenever the count of the records is within the capacity of the array (as the
  source asserts), \<open>process_interrupts\<close> returns, whatever the completion triggers
  answer, and changes of the manager the boundary channels only. The completion triggers
  it called are, in the order of the records and once each, those of the valid records
  with their processed-descriptor counts: a record with no registered boundary channel,
  with a host or device error, or with the channel inactive is skipped, and no record
  stops the processing of those after it. Every registered channel is left as its
  completion trigger leaves it once given, in the order of the records, the
  processed-descriptor count of each valid record for its channel id, so a channel no
  valid record names is left as it was. The registered channel ids stay the same.
\<close>

theorem process_interrupts_isolates_records:
  assumes "unat (channels_count irq_data) \<le> length (channels_irq_data irq_data)"
  shows "\<exists>m' effects.
      process_interrupts x m irq_data = Some (m', effects) \<and>
      m' = m\<lparr>m_boundary_channels := m_boundary_channels m'\<rparr> \<and>
      map fst (m_boundary_channels m') = map fst (m_boundary_channels m) \<and>
      completion_triggers effects =
        map (\<lambda>d. (irq_channel_id d, desc_num_processed d))
          (filter (irq_record_valid (m_boundary_channels m))
             (take (unat (channels_count irq_data)) (channels_irq_data irq_data))) \<and>
      (\<forall>k boundary_channel.
         map_of (m_boundary_channels m) k = Some boundary_channel \<longrightarrow>
         map_of (m_boundary_channels m') k =
           Some (forward_completions x
             (forwarded_counts (m_boundary_channels m) k
                (take (unat (channels_count irq_data)) (channels_irq_data irq_data)))
             boundary_channel))"
proof -
  from process_interrupts_loop_triggers [OF assms, of 0 x "m_boundary_channels m" "[]"]
  obtain chans' effects' where
    "process_interrupts_loop x irq_data 0 (m_boundary_channels m) [] = Some (chans', effects')"
    "map fst chans' = map fst (m_boundary_channels m)"
    "completion_triggers effects' =
        map (\<lambda>d. (irq_channel_id d, desc_num_processed d))
          (filter (irq_record_valid (m_boundary_channels m))
             (take (unat (channels_count irq_data)) (channels_irq_data irq_data)))"
    "\<forall>k ch. map_of (m_boundary_channels m) k = Some ch \<longrightarrow>
       map_of chans' k =
         Some (forward_completions x
           (forwarded_counts (m_boundary_channels m) k
              (take (unat (channels_count irq_data)) (channels_irq_data irq_data))) ch)"
    by auto
  then show ?thesis
    by (simp add: process_interrupts_def)
qed


theorem process_interrupts_isolates_records_witness:
  "\<exists>m' effects.
     process_interrupts (example_collaborators (\<lambda>l. HAILO_SUCCESS) HAILO_INTERNAL_FAILURE 1)
       (example_manager [] []
          [(\<lparr>engine_index = 0, channel_index = 1\<rparr>, example_boundary_channel ''in0'' 4096),
           (\<lparr>engine_index = 0, channel_index = 2\<rparr>, example_boundary_channel ''out0'' 4096)])
       example_irq_data = Some (m', effects) \<and>
     completion_triggers effects =
       [(\<lparr>engine_index = 0, channel_index = 1\<rparr>, 5), (\<lparr>engine_index = 0, channel_index = 1\<rparr>, 7)] \<and>
     map_of (m_boundary_channels m') \<lparr>engine_index = 0, channel_index = 1\<rparr> =
       Some \<lparr>ch_stream_name = ''in0'', ch_list_bytes = 4096, ch_completed = [5, 7]\<rparr> \<and>
     map_of (m_boundary_channels m') \<lparr>engine_index = 0, channel_index = 2\<rparr> =
       Some \<lparr>ch_stream_name = ''out0'', ch_list_bytes = 4096, ch_completed = []\<rparr>"
proof -
  let ?x = "example_collaborators (\<lambda>l. HAILO_SUCCESS) HAILO_INTERNAL_FAILURE 1"
  let ?chans = "[(\<lparr>engine_index = 0, channel_index = 1\<rparr>, example_boundary_channel ''in0'' 4096),
           (\<lparr>engine_index = 0, channel_index = 2\<rparr>, example_boundary_channel ''out0'' 4096)]"
  let ?m = "example_manager [] [] ?chans"
  let ?records = "take (unat (channels_count example_irq_data))
    (channels_irq_data example_irq_data)"
  have fits: "unat (channels_count example_irq_data) \<le> length (channels_irq_data example_irq_data)"
    by (simp add: example_irq_data_def)
  have chans: "m_boundary_channels ?m = ?chans"
    by (simp add: example_manager_def)
  have triggers: "map (\<lambda>d. (irq_channel_id d, desc_num_processed d))
          (filter (irq_record_valid ?chans) ?records) =
       [(\<lparr>engine_index = 0, channel_index = 1\<rparr>, 5), (\<lparr>engine_index = 0, channel_index = 1\<rparr>, 7)]"
    by (simp add: example_irq_data_def example_irq_record_def irq_record_valid_def)
  have counts1: "forwarded_counts ?chans \<lparr>engine_index = 0, channel_index = 1\<rparr> ?records = [5, 7]"
    by (simp add: forwarded_counts_def example_irq_data_def example_irq_record_def
        irq_record_valid_def)
  have counts2: "forwarded_counts ?chans \<lparr>engine_index = 0, channel_index = 2\<rparr> ?records = []"
    by (simp add: forwarded_counts_def example_irq_data_def example_irq_record_def
        irq_record_valid_def)
  have first: "map_of ?chans \<lparr>engine_index = 0, channel_index = 1\<rparr> =
      Some (example_boundary_channel ''in0'' 4096)"
    and second: "map_of ?chans \<lparr>engine_index = 0, channel_index = 2\<rparr> =
      Some (example_boundary_channel ''out0'' 4096)"
    by simp_all
  have left1: "forward_completions ?x [5, 7] (example_boundary_channel ''in0'' 4096) =
      \<lparr>ch_stream_name = ''in0'', ch_list_bytes = 4096, ch_completed = [5, 7]\<rparr>"
    by (simp add: forward_completions_def example_collaborators_def example_boundary_channel_def)
  have left2: "forward_completions ?x [] (example_boundary_channel ''out0'' 4096) =
      \<lparr>ch_stream_name = ''out0'', ch_list_bytes = 4096, ch_completed = []\<rparr>"
    by (simp add: forward_completions_def example_boundary_channel_def)
  from process_interrupts_isolates_records [OF fits, of ?x ?m]
  obtain m' effects where run: "process_interrupts ?x ?m example_irq_data = Some (m', effects)"
    "completion_triggers effects =
       map (\<lambda>d. (irq_channel_id d, desc_num_processed d))
         (filter (irq_record_valid (m_boundary_channels ?m)) ?records)"
    "\<And>k boundary_channel. map_of (m_boundary_channels ?m) k = Some boundary_channel \<Longrightarrow>
       map_of (m_boundary_channels m') k =
         Some (forward_completions ?x (forwarded_counts (m_boundary_channels ?m) k ?records)
           boundary_channel)"
    by blast
  have "completion_triggers effects =
       [(\<lparr>engine_index = 0, channel_index = 1\<rparr>, 5), (\<lparr>engine_index = 0, channel_index = 1\<rparr>, 7)]"
    using run(2) triggers unfolding chans by simp
  moreover have "map_of (m_boundary_channels m') \<lparr>engine_index = 0, channel_index = 1\<rparr> =
       Some \<lparr>ch_stream_name = ''in0'', ch_list_bytes = 4096, ch_completed = [5, 7]\<rparr>"
    using run(3) [unfolded chans, OF first] unfolding counts1 left1 .
  moreover have "map_of (m_boundary_channels m') \<lparr>engine_index = 0, channel_index = 2\<rparr> =
       Some \<lparr>ch_stream_name = ''out0'', ch_list_bytes = 4096, ch_completed = []\<rparr>"
    using run(3) [unfolded chans, OF second] unfolding counts2 left2 .
  ultimately show ?thesis
    using run(1) by blast
qed

section \<open>The batch count of the hardware-only inference\<close>

lemma batch_transfer_size_no_wrap:
  fixes single_transfer_size :: "32 word" and dynamic_batch_size :: "16 word"
  assumes "unat dynamic_batch_size * unat single_transfer_size < 4294967296"
  shows "unat (single_transfer_size * ucast dynamic_batch_size) =
    unat dynamic_batch_size * unat single_transfer_size"
proof -
  have "unat (ucast dynamic_batch_size :: 32 word) = unat dynamic_batch_size"
    by (simp add: unsigned_ucast_eq take_bit_nat_eq_self_iff)
      (rule order_less_trans [OF unsigned_less [of dynamic_batch_size, where ?'a = nat]]; simp)
  then have "unat (single_transfer_size * ucast dynamic_batch_size) =
      (unat single_transfer_size * unat dynamic_batch_size) mod 4294967296"
    by (simp add: unat_word_ariths)
  with assms show ?thesis
    by (simp add: mult.commute)
qed

lemma calc_hw_infer_batch_count_loop_fold:
  assumes "\<forall>layer \<in> set layers. \<exists>ch. get_boundary_vdma_channel_by_stream_name x m (name layer) = Inr ch"
    and "\<forall>layer \<in> set layers. layer_batch_transfer_size x dbs layer < 4294967296"
  shows "\<exists>r. calc_hw_infer_batch_count_loop x m dbs layers batch_count = Inr r \<and>
    unat r = fold min (map (layer_max_batch_transfers x m dbs) layers) (unat batch_count)"
  using assms
proof (induction layers arbitrary: batch_count)
  case Nil
  then show ?case by simp
next
  case (Cons layer layers)
  then obtain ch where ch: "get_boundary_vdma_channel_by_stream_name x m (name layer) = Inr ch"
    by auto
  let ?cap = "layer_max_batch_transfers x m dbs layer"
  let ?next = "if unat batch_count < ?cap then batch_count else of_nat ?cap :: 16 word"
  let ?info = "get_stream_info_from_layer_info x layer"
  let ?sts = "if format_order_is_hailo_nms ?info then nms_info_bbox_size ?info
    else hw_frame_size ?info"
  from Cons.prems(2) have "unat dbs * unat ?sts < 4294967296"
    by (simp add: layer_batch_transfer_size_def)
  then have size: "unat (?sts * ucast dbs) = layer_batch_transfer_size x dbs layer"
    unfolding layer_batch_transfer_size_def by (rule batch_transfer_size_no_wrap)
  have step: "calc_hw_infer_batch_count_loop x m dbs (layer # layers) batch_count =
      calc_hw_infer_batch_count_loop x m dbs layers ?next"
    using ch size by (simp add: layer_max_batch_transfers_def Let_def)
  have "unat batch_count < 65536"
    using unsigned_less [of batch_count, where ?'a = nat] by simp
  then have next_val: "unat ?next = min ?cap (unat batch_count)"
    by (auto simp: unat_of_nat min_def)
  from Cons.IH [of ?next] Cons.prems
  obtain r where "calc_hw_infer_batch_count_loop x m dbs layers ?next = Inr r"
    "unat r = fold min (map (layer_max_batch_transfers x m dbs) layers) (unat ?next)"
    by auto
  with step next_val show ?case by simp
qed

text \<open>
  C4. For a non-empty set of layers, each with a boundary channel of its name, where
  the size in bytes of a group of \<open>dynamic_batch_size\<close> transfers of every layer fits
  the 32 bits the source computes it in, and the smallest capacity fits the 16 bits of
  a batch count, \<open>calc_hw_infer_batch_count\<close> succeeds and the batch count is the
  minimum, over the layers, of the number of \<open>dynamic_batch_size\<close>-sized transfer
  groups the descriptor list of the layer's boundary channel can hold.
\<close>

theorem calc_hw_infer_batch_count_is_minimum:
  assumes "all_layer_infos (m_core_op_metadata m) \<noteq> []"
    and "\<forall>layer \<in> set (all_layer_infos (m_core_op_metadata m)).
           \<exists>ch. get_boundary_vdma_channel_by_stream_name x m (name layer) = Inr ch"
    and "\<forall>layer \<in> set (all_layer_infos (m_core_op_metadata m)).
           layer_batch_transfer_size x dynamic_batch_size layer < 4294967296"
    and "\<exists>layer \<in> set (all_layer_infos (m_core_op_metadata m)).
           layer_max_batch_transfers x m dynamic_batch_size layer \<le> 65535"
  shows "\<exists>batch_count.
      calc_hw_infer_batch_count x m dynamic_batch_size = Inr batch_count \<and>
      unat batch_count =
        Min (layer_max_batch_transfers x m dynamic_batch_size `
               set (all_layer_infos (m_core_op_metadata m)))"
proof -
  let ?layers = "all_layer_infos (m_core_op_metadata m)"
  let ?caps = "map (layer_max_batch_transfers x m dynamic_batch_size) ?layers"
  from calc_hw_infer_batch_count_loop_fold [OF assms(2,3), of "0xFFFF"]
  obtain r where r: "calc_hw_infer_batch_count x m dynamic_batch_size = Inr r"
    "unat r = fold min ?caps 65535"
    by (auto simp: calc_hw_infer_batch_count_def)
  have "fold min ?caps 65535 = Min (set (65535 # ?caps))"
    by (simp only: Min.set_eq_fold)
  also have "\<dots> = min 65535 (Min (set ?caps))"
    using assms(1) by (simp add: Min_insert)
  also have "\<dots> = Min (set ?caps)"
  proof -
    from assms(4) obtain layer where "layer \<in> set ?layers"
      "layer_max_batch_transfers x m dynamic_batch_size layer \<le> 65535"
      by blast
    then have "Min (set ?caps) \<le> 65535"
      by (intro Min_le_iff [THEN iffD2]) (auto intro!: bexI [of _ layer])
    then show ?thesis by simp
  qed
  finally have "unat r = Min (set ?caps)"
    using r(2) by simp
  with r(1) show ?thesis by simp
qed

lemma example_hw_infer_capacities:
  "map (layer_max_batch_transfers
          (example_collaborators (\<lambda>l. HAILO_SUCCESS) HAILO_SUCCESS 1) example_hw_infer_manager 4)
     (all_layer_infos (m_core_op_metadata example_hw_infer_manager)) = [10, 7, 12]"
  by (simp add: layer_max_batch_transfers_def layer_batch_transfer_size_def
      example_hw_infer_manager_def example_manager_def
      example_collaborators_def example_layer_def example_boundary_channel_def
      get_boundary_vdma_channel_by_stream_name_def)

theorem calc_hw_infer_batch_count_is_minimum_witness:
  "calc_hw_infer_batch_count (example_collaborators (\<lambda>l. HAILO_SUCCESS) HAILO_SUCCESS 1)
     example_hw_infer_manager 4 = Inr 7"
proof -
  let ?x = "example_collaborators (\<lambda>l. HAILO_SUCCESS) HAILO_SUCCESS 1"
  let ?m = example_hw_infer_manager
  let ?layers = "all_layer_infos (m_core_op_metadata ?m)"
  have layers: "?layers = [example_layer ''in0'' ''net'', example_layer ''out0'' ''net'',
      example_layer ''out1'' ''net'']"
    by (simp add: example_hw_infer_manager_def)
  have nonempty: "?layers \<noteq> []"
    by (simp add: layers)
  have channels: "\<forall>layer \<in> set ?layers.
      \<exists>ch. get_boundary_vdma_channel_by_stream_name ?x ?m (name layer) = Inr ch"
    unfolding layers
    by (simp add: example_hw_infer_manager_def example_manager_def example_collaborators_def
        example_layer_def example_boundary_channel_def
        get_boundary_vdma_channel_by_stream_name_def)
  have sizes: "\<forall>layer \<in> set ?layers. layer_batch_transfer_size ?x 4 layer < 4294967296"
    unfolding layers
    by (simp add: layer_batch_transfer_size_def example_collaborators_def example_layer_def)
  have caps: "layer_max_batch_transfers ?x ?m 4 ` set ?layers = {10, 7, 12}"
    using example_hw_infer_capacities by (simp flip: set_map)
  have small: "\<exists>layer \<in> set ?layers. layer_max_batch_transfers ?x ?m 4 layer \<le> 65535"
  proof -
    have "\<exists>n \<in> layer_max_batch_transfers ?x ?m 4 ` set ?layers. n \<le> 65535"
      unfolding caps by simp
    then show ?thesis by blast
  qed
  from calc_hw_infer_batch_count_is_minimum [OF nonempty channels sizes small]
  obtain batch_count where b: "calc_hw_infer_batch_count ?x ?m 4 = Inr batch_count"
    "unat batch_count = Min (layer_max_batch_transfers ?x ?m 4 ` set ?layers)"
    by blast
  from b(2) have "unat batch_count = 7"
    unfolding caps by simp
  then have "batch_count = 7"
    by (metis of_nat_unat of_nat_numeral ucast_id)
  with b(1) show ?thesis by simp
qed

section \<open>Descriptor programming of the hardware-only inference\<close>

lemma unat_succ_u16: "unat (i :: 16 word) < unat (n :: 16 word) \<Longrightarrow> unat (i + 1) = Suc (unat i)"
proof -
  assume lt: "unat i < unat n"
  have "unat n < 65536"
    using unsigned_less [of n, where ?'a = nat] by simp
  with lt show ?thesis by (simp add: unat_word_ariths)
qed

lemma last_transfer_test:
  "unat (ti :: 16 word) < unat (dbs :: 16 word) \<Longrightarrow>
     (uint dbs - 1 = uint ti) = (unat ti = unat dbs - 1)"
proof -
  assume "unat ti < unat dbs"
  moreover have "uint dbs = int (unat dbs)" "uint ti = int (unat ti)"
    by simp_all
  ultimately show ?thesis by linarith
qed

lemma program_call_result_first:
  "program_call_result x dl (call # calls) 0 = program_last_descriptor_result x (dl @ [call])"
  by (simp add: program_call_result_def)

lemma program_call_result_later:
  "program_call_result x dl (call # calls) (Suc q) = program_call_result x (dl @ [call]) calls q"
  by (simp add: program_call_result_def)

lemma program_call_result_append:
  "program_call_result x dl (calls @ calls') q =
     (if q < length calls then program_call_result x dl calls q
      else program_call_result x (dl @ calls) calls' (q - length calls))"
  by (simp add: program_call_result_def Suc_diff_le)

lemma programmed_descriptors_append:
  "programmed_descriptors x dl (calls @ calls') =
     programmed_descriptors x dl calls + programmed_descriptors x (dl @ calls) calls'"
  by (induction calls arbitrary: dl) simp_all

lemma hw_only_interrupts_domains_count:
  "length (filter (\<lambda>d. d = InterruptsDomain_DEVICE) (hw_only_interrupts_domains dbs bc)) = bc"
  by (induction bc) (simp_all add: hw_only_interrupts_domains_def)

lemma hw_only_interrupts_domains_Suc:
  "hw_only_interrupts_domains dbs (Suc bc) =
     (replicate (dbs - 1) InterruptsDomain_NONE @ [InterruptsDomain_DEVICE]) @
     hw_only_interrupts_domains dbs bc"
  by (simp add: hw_only_interrupts_domains_def)

lemma group_interrupts_domains:
  assumes "length calls = dbs" and "0 < dbs"
    and "\<And>q. q < length calls \<Longrightarrow> call_last_desc_interrupts_domain (calls ! q) =
       (if q = dbs - 1 then InterruptsDomain_DEVICE else InterruptsDomain_NONE)"
  shows "map call_last_desc_interrupts_domain calls =
    replicate (dbs - 1) InterruptsDomain_NONE @ [InterruptsDomain_DEVICE]"
proof (rule nth_equalityI)
  show "length (map call_last_desc_interrupts_domain calls) =
      length (replicate (dbs - 1) InterruptsDomain_NONE @ [InterruptsDomain_DEVICE])"
    using assms(1,2) by simp
next
  fix q assume "q < length (map call_last_desc_interrupts_domain calls)"
  then have q: "q < length calls" by simp
  with assms(1) have "q < dbs" by simp
  then show "map call_last_desc_interrupts_domain calls ! q =
      (replicate (dbs - 1) InterruptsDomain_NONE @ [InterruptsDomain_DEVICE]) ! q"
    using assms(3) [OF q] q by (auto simp: nth_append)
qed

lemma program_desc_transfers_run:
  assumes "unat ti \<le> unat dbs"
  shows "\<exists>r calls.
      program_desc_transfers x sts dbs ti acc dl = (r, dl @ calls) \<and>
      length calls \<le> unat dbs - unat ti \<and>
      (\<forall>q < length calls. call_last_desc_interrupts_domain (calls ! q) =
         (if unat ti + q = unat dbs - 1 then InterruptsDomain_DEVICE
          else InterruptsDomain_NONE)) \<and>
      (\<forall>q < length calls. \<forall>status. program_call_result x dl calls q = Inl status \<longrightarrow>
         Suc q = length calls \<and> r = Inl status) \<and>
      ((\<forall>q < length calls. \<exists>n. program_call_result x dl calls q = Inr n) \<longrightarrow>
         length calls = unat dbs - unat ti \<and>
         r = Inr (acc + programmed_descriptors x dl calls))"
  using assms
proof (induction "unat dbs - unat ti" arbitrary: ti acc dl)
  case 0
  then have "\<not> ti < dbs" by (simp add: word_less_nat_alt)
  with 0 show ?case by (simp add: program_desc_transfers.simps [of x sts dbs ti])
next
  case (Suc k)
  then have lt: "unat ti < unat dbs" by simp
  then have wlt: "ti < dbs" by (simp add: word_less_nat_alt)
  have u: "unat (ti + 1) = Suc (unat ti)" using lt by (rule unat_succ_u16)
  define d where "d = (if uint dbs - 1 = uint ti then InterruptsDomain_DEVICE
    else InterruptsDomain_NONE)"
  define call where "call = \<lparr>call_transfer_size = sts, call_last_desc_interrupts_domain = d,
      call_desc_offset = acc, call_is_circular = False\<rparr>"
  have d_eq: "d = (if unat ti + 0 = unat dbs - 1 then InterruptsDomain_DEVICE
    else InterruptsDomain_NONE)"
    using lt by (simp add: d_def last_transfer_test)
  have dom: "call_last_desc_interrupts_domain call = d" by (simp add: call_def)
  show ?case
  proof (cases "program_last_descriptor_result x (dl @ [call])")
    case (Inl e)
    then have "program_desc_transfers x sts dbs ti acc dl = (Inl e, dl @ [call])"
      using wlt by (simp add: program_desc_transfers.simps [of x sts dbs ti] call_def d_def)
    moreover have "length [call] \<le> unat dbs - unat ti" using lt by simp
    moreover have "\<forall>q < length [call]. call_last_desc_interrupts_domain ([call] ! q) =
         (if unat ti + q = unat dbs - 1 then InterruptsDomain_DEVICE
          else InterruptsDomain_NONE)"
      using d_eq dom by simp
    moreover have "\<forall>q < length [call]. \<forall>status.
        program_call_result x dl [call] q = Inl status \<longrightarrow>
        Suc q = length [call] \<and> Inl e = (Inl status :: hailo_status + nat)"
      using Inl by (simp add: program_call_result_first)
    moreover have "(\<forall>q < length [call]. \<exists>n. program_call_result x dl [call] q = Inr n) \<longrightarrow>
        length [call] = unat dbs - unat ti \<and>
        (Inl e :: hailo_status + nat) = Inr (acc + programmed_descriptors x dl [call])"
      using Inl by (simp add: program_call_result_first)
    ultimately show ?thesis by blast
  next
    case (Inr n)
    then have step: "program_desc_transfers x sts dbs ti acc dl =
        program_desc_transfers x sts dbs (ti + 1) (acc + unat n) (dl @ [call])"
      using wlt by (simp add: program_desc_transfers.simps [of x sts dbs ti] call_def d_def)
    have "k = unat dbs - unat (ti + 1)" "unat (ti + 1) \<le> unat dbs"
      using Suc.hyps(2) lt u by simp_all
    from Suc.hyps(1) [OF this, of "acc + unat n" "dl @ [call]"]
    obtain r calls where rest:
      "program_desc_transfers x sts dbs (ti + 1) (acc + unat n) (dl @ [call]) =
         (r, (dl @ [call]) @ calls)"
      "length calls \<le> unat dbs - unat (ti + 1)"
      "\<And>q. q < length calls \<Longrightarrow> call_last_desc_interrupts_domain (calls ! q) =
         (if unat (ti + 1) + q = unat dbs - 1 then InterruptsDomain_DEVICE
          else InterruptsDomain_NONE)"
      "\<And>q status. q < length calls \<Longrightarrow>
         program_call_result x (dl @ [call]) calls q = Inl status \<Longrightarrow>
         Suc q = length calls \<and> r = Inl status"
      "(\<forall>q < length calls. \<exists>n. program_call_result x (dl @ [call]) calls q = Inr n) \<longrightarrow>
         length calls = unat dbs - unat (ti + 1) \<and>
         r = Inr (acc + unat n + programmed_descriptors x (dl @ [call]) calls)"
      by blast
    have nth: "call_last_desc_interrupts_domain ((call # calls) ! q) =
         (if unat ti + q = unat dbs - 1 then InterruptsDomain_DEVICE
          else InterruptsDomain_NONE)" if "q < length (call # calls)" for q
    proof (cases q)
      case 0
      with d_eq dom show ?thesis by simp
    next
      case (Suc q')
      with that rest(3) [of q'] u show ?thesis by simp
    qed
    have failed: "Suc q = length (call # calls) \<and> r = Inl status"
      if "q < length (call # calls)" "program_call_result x dl (call # calls) q = Inl status"
      for q status
    proof (cases q)
      case 0
      with that(2) Inr show ?thesis by (simp add: program_call_result_first)
    next
      case (Suc q')
      with that rest(4) [of q' status] show ?thesis
        by (simp add: program_call_result_later)
    qed
    have succeeded: "length (call # calls) = unat dbs - unat ti \<and>
        r = Inr (acc + programmed_descriptors x dl (call # calls))"
      if all: "\<forall>q < length (call # calls). \<exists>n. program_call_result x dl (call # calls) q = Inr n"
    proof -
      have "\<exists>n. program_call_result x (dl @ [call]) calls q = Inr n" if "q < length calls" for q
        using all [rule_format, of "Suc q"] that by (simp add: program_call_result_later)
      with rest(5) have "length calls = unat dbs - unat (ti + 1)"
        "r = Inr (acc + unat n + programmed_descriptors x (dl @ [call]) calls)"
        by blast+
      then show ?thesis
        using lt u Inr by simp
    qed
    have "program_desc_transfers x sts dbs ti acc dl = (r, dl @ call # calls)"
      using step rest(1) by simp
    moreover have "length (call # calls) \<le> unat dbs - unat ti"
      using rest(2) lt u by simp
    ultimately show ?thesis using nth failed succeeded by blast
  qed
qed


lemma program_desc_batches_run:
  assumes "unat bi \<le> unat bc"
  shows "\<exists>r calls.
      program_desc_batches x sts dbs bc bi acc dl = (r, dl @ calls) \<and>
      length calls \<le> (unat bc - unat bi) * unat dbs \<and>
      (\<forall>b t. t < unat dbs \<longrightarrow> b * unat dbs + t < length calls \<longrightarrow>
         call_last_desc_interrupts_domain (calls ! (b * unat dbs + t)) =
         (if t = unat dbs - 1 then InterruptsDomain_DEVICE else InterruptsDomain_NONE)) \<and>
      (\<forall>q < length calls. \<forall>status. program_call_result x dl calls q = Inl status \<longrightarrow>
         Suc q = length calls \<and> r = Inl status) \<and>
      ((\<forall>q < length calls. \<exists>n. program_call_result x dl calls q = Inr n) \<longrightarrow>
         length calls = (unat bc - unat bi) * unat dbs \<and>
         r = Inr (acc + programmed_descriptors x dl calls) \<and>
         (0 < unat dbs \<longrightarrow>
            map call_last_desc_interrupts_domain calls =
              hw_only_interrupts_domains (unat dbs) (unat bc - unat bi)))"
  using assms
proof (induction "unat bc - unat bi" arbitrary: bi acc dl)
  case 0
  then have "\<not> bi < bc" by (simp add: word_less_nat_alt)
  with 0 show ?case
    by (simp add: program_desc_batches.simps [of x sts dbs bc bi] hw_only_interrupts_domains_def)
next
  case (Suc k)
  then have lt: "unat bi < unat bc" by simp
  then have wlt: "bi < bc" by (simp add: word_less_nat_alt)
  have u: "unat (bi + 1) = Suc (unat bi)" using lt by (rule unat_succ_u16)
  have more: "unat bc - unat bi = Suc (unat bc - unat (bi + 1))" using lt u by simp
  have "\<exists>r1 calls1.
      program_desc_transfers x sts dbs 0 acc dl = (r1, dl @ calls1) \<and>
      length calls1 \<le> unat dbs \<and>
      (\<forall>q < length calls1. call_last_desc_interrupts_domain (calls1 ! q) =
         (if q = unat dbs - 1 then InterruptsDomain_DEVICE else InterruptsDomain_NONE)) \<and>
      (\<forall>q < length calls1. \<forall>status. program_call_result x dl calls1 q = Inl status \<longrightarrow>
         Suc q = length calls1 \<and> r1 = Inl status) \<and>
      ((\<forall>q < length calls1. \<exists>n. program_call_result x dl calls1 q = Inr n) \<longrightarrow>
         length calls1 = unat dbs \<and> r1 = Inr (acc + programmed_descriptors x dl calls1))"
    using program_desc_transfers_run [of 0 dbs x sts acc dl] by simp
  then obtain r1 calls1 where inner:
    "program_desc_transfers x sts dbs 0 acc dl = (r1, dl @ calls1)"
    "length calls1 \<le> unat dbs"
    "\<And>q. q < length calls1 \<Longrightarrow> call_last_desc_interrupts_domain (calls1 ! q) =
       (if q = unat dbs - 1 then InterruptsDomain_DEVICE else InterruptsDomain_NONE)"
    "\<And>q status. q < length calls1 \<Longrightarrow> program_call_result x dl calls1 q = Inl status \<Longrightarrow>
       Suc q = length calls1 \<and> r1 = Inl status"
    "(\<forall>q < length calls1. \<exists>n. program_call_result x dl calls1 q = Inr n) \<longrightarrow>
       length calls1 = unat dbs \<and> r1 = Inr (acc + programmed_descriptors x dl calls1)"
    by blast
  show ?case
  proof (cases r1)
    case (Inl e)
    then have res: "program_desc_batches x sts dbs bc bi acc dl = (Inl e, dl @ calls1)"
      using wlt inner(1) by (simp add: program_desc_batches.simps [of x sts dbs bc bi])
    have len: "length calls1 \<le> (unat bc - unat bi) * unat dbs"
      using inner(2) more by simp
    have nth: "call_last_desc_interrupts_domain (calls1 ! (b * unat dbs + t)) =
         (if t = unat dbs - 1 then InterruptsDomain_DEVICE else InterruptsDomain_NONE)"
      if "t < unat dbs" "b * unat dbs + t < length calls1" for b t
    proof -
      have "b = 0"
      proof (rule ccontr)
        assume "b \<noteq> 0"
        then have "unat dbs \<le> b * unat dbs" by simp
        with that(2) inner(2) show False by simp
      qed
      with that(2) inner(3) [of t] show ?thesis by simp
    qed
    have failed: "\<forall>q < length calls1. \<forall>status. program_call_result x dl calls1 q = Inl status \<longrightarrow>
        Suc q = length calls1 \<and> (Inl e :: hailo_status + nat) = Inl status"
      using inner(4) Inl by blast
    have not_all: "\<not> (\<forall>q < length calls1. \<exists>n. program_call_result x dl calls1 q = Inr n)"
      using inner(5) Inl by auto
    from res len nth failed not_all show ?thesis by blast
  next
    case (Inr acc1)
    have ok1: "\<exists>n. program_call_result x dl calls1 q = Inr n" if "q < length calls1" for q
    proof (cases "program_call_result x dl calls1 q")
      case (Inl status)
      from inner(4) [OF that this] Inr show ?thesis by simp
    next
      case (Inr n)
      then show ?thesis by blast
    qed
    with inner(5) Inr have full: "length calls1 = unat dbs"
      and acc1: "acc1 = acc + programmed_descriptors x dl calls1"
      by auto
    have step: "program_desc_batches x sts dbs bc bi acc dl =
        program_desc_batches x sts dbs bc (bi + 1) acc1 (dl @ calls1)"
      using wlt inner(1) Inr by (simp add: program_desc_batches.simps [of x sts dbs bc bi])
    have "k = unat bc - unat (bi + 1)" "unat (bi + 1) \<le> unat bc"
      using Suc.hyps(2) lt u by simp_all
    from Suc.hyps(1) [OF this, of acc1 "dl @ calls1"]
    obtain r where "\<exists>calls2.
      program_desc_batches x sts dbs bc (bi + 1) acc1 (dl @ calls1) =
        (r, (dl @ calls1) @ calls2) \<and>
      length calls2 \<le> (unat bc - unat (bi + 1)) * unat dbs \<and>
      (\<forall>b t. t < unat dbs \<longrightarrow> b * unat dbs + t < length calls2 \<longrightarrow>
         call_last_desc_interrupts_domain (calls2 ! (b * unat dbs + t)) =
         (if t = unat dbs - 1 then InterruptsDomain_DEVICE else InterruptsDomain_NONE)) \<and>
      (\<forall>q < length calls2. \<forall>status.
         program_call_result x (dl @ calls1) calls2 q = Inl status \<longrightarrow>
         Suc q = length calls2 \<and> r = Inl status) \<and>
      ((\<forall>q < length calls2. \<exists>n. program_call_result x (dl @ calls1) calls2 q = Inr n) \<longrightarrow>
         length calls2 = (unat bc - unat (bi + 1)) * unat dbs \<and>
         r = Inr (acc1 + programmed_descriptors x (dl @ calls1) calls2) \<and>
         (0 < unat dbs \<longrightarrow>
            map call_last_desc_interrupts_domain calls2 =
              hw_only_interrupts_domains (unat dbs) (unat bc - unat (bi + 1))))" ..
    then obtain calls2 where rest0:
      "program_desc_batches x sts dbs bc (bi + 1) acc1 (dl @ calls1) =
        (r, (dl @ calls1) @ calls2) \<and>
      length calls2 \<le> (unat bc - unat (bi + 1)) * unat dbs \<and>
      (\<forall>b t. t < unat dbs \<longrightarrow> b * unat dbs + t < length calls2 \<longrightarrow>
         call_last_desc_interrupts_domain (calls2 ! (b * unat dbs + t)) =
         (if t = unat dbs - 1 then InterruptsDomain_DEVICE else InterruptsDomain_NONE)) \<and>
      (\<forall>q < length calls2. \<forall>status.
         program_call_result x (dl @ calls1) calls2 q = Inl status \<longrightarrow>
         Suc q = length calls2 \<and> r = Inl status) \<and>
      ((\<forall>q < length calls2. \<exists>n. program_call_result x (dl @ calls1) calls2 q = Inr n) \<longrightarrow>
         length calls2 = (unat bc - unat (bi + 1)) * unat dbs \<and>
         r = Inr (acc1 + programmed_descriptors x (dl @ calls1) calls2) \<and>
         (0 < unat dbs \<longrightarrow>
            map call_last_desc_interrupts_domain calls2 =
              hw_only_interrupts_domains (unat dbs) (unat bc - unat (bi + 1))))" ..
    note rest = rest0 [THEN conjunct1] rest0 [THEN conjunct2, THEN conjunct1]
      rest0 [THEN conjunct2, THEN conjunct2, THEN conjunct1, rule_format]
      rest0 [THEN conjunct2, THEN conjunct2, THEN conjunct2, THEN conjunct1, rule_format]
      rest0 [THEN conjunct2, THEN conjunct2, THEN conjunct2, THEN conjunct2]
    have res: "program_desc_batches x sts dbs bc bi acc dl = (r, dl @ calls1 @ calls2)"
      using step rest(1) by simp
    have len: "length (calls1 @ calls2) \<le> (unat bc - unat bi) * unat dbs"
      using rest(2) full more by simp
    have nth: "call_last_desc_interrupts_domain ((calls1 @ calls2) ! (b * unat dbs + t)) =
         (if t = unat dbs - 1 then InterruptsDomain_DEVICE else InterruptsDomain_NONE)"
      if "t < unat dbs" "b * unat dbs + t < length (calls1 @ calls2)" for b t
    proof (cases b)
      case 0
      with that(1) full inner(3) [of t] show ?thesis by (simp add: nth_append)
    next
      case (Suc b')
      then have idx: "b * unat dbs + t = length calls1 + (b' * unat dbs + t)"
        using full by simp
      with that(2) have "b' * unat dbs + t < length calls2" by simp
      from rest(3) [OF that(1) this] show ?thesis
        unfolding idx by (simp only: nth_append_length_plus)
    qed
    have failed: "Suc q = length (calls1 @ calls2) \<and> r = Inl status"
      if q: "q < length (calls1 @ calls2)"
        and no: "program_call_result x dl (calls1 @ calls2) q = Inl status" for q status
    proof (cases "q < length calls1")
      case True
      with no ok1 [OF True] show ?thesis
        by (simp add: program_call_result_append)
    next
      case False
      with q have "q - length calls1 < length calls2" by simp
      moreover from no False
      have "program_call_result x (dl @ calls1) calls2 (q - length calls1) = Inl status"
        by (simp add: program_call_result_append)
      ultimately have "Suc (q - length calls1) = length calls2 \<and> r = Inl status"
        by (rule rest(4))
      with False show ?thesis by auto
    qed
    have succeeded: "length (calls1 @ calls2) = (unat bc - unat bi) * unat dbs \<and>
        r = Inr (acc + programmed_descriptors x dl (calls1 @ calls2)) \<and>
        (0 < unat dbs \<longrightarrow>
           map call_last_desc_interrupts_domain (calls1 @ calls2) =
             hw_only_interrupts_domains (unat dbs) (unat bc - unat bi))"
      if all: "\<forall>q < length (calls1 @ calls2).
          \<exists>n. program_call_result x dl (calls1 @ calls2) q = Inr n"
    proof -
      have "\<exists>n. program_call_result x (dl @ calls1) calls2 q = Inr n"
        if "q < length calls2" for q
        using all [rule_format, of "length calls1 + q"] that
        by (simp add: program_call_result_append)
      with rest(5) have r2: "length calls2 = (unat bc - unat (bi + 1)) * unat dbs"
        "r = Inr (acc1 + programmed_descriptors x (dl @ calls1) calls2)"
        "0 < unat dbs \<longrightarrow>
            map call_last_desc_interrupts_domain calls2 =
              hw_only_interrupts_domains (unat dbs) (unat bc - unat (bi + 1))"
        by blast+
      have "map call_last_desc_interrupts_domain (calls1 @ calls2) =
          hw_only_interrupts_domains (unat dbs) (unat bc - unat bi)" if pos: "0 < unat dbs"
      proof -
        have "map call_last_desc_interrupts_domain calls1 =
            replicate (unat dbs - 1) InterruptsDomain_NONE @ [InterruptsDomain_DEVICE]"
          using full pos inner(3) by (rule group_interrupts_domains)
        with r2(3) pos show ?thesis
          unfolding more hw_only_interrupts_domains_Suc by simp
      qed
      with r2(1,2) full more acc1 show ?thesis
        by (simp add: programmed_descriptors_append)
    qed
    have res': "program_desc_batches x sts dbs bc bi acc dl = (r, dl @ (calls1 @ calls2))"
      using res by simp
    have nth': "\<forall>b t. t < unat dbs \<longrightarrow> b * unat dbs + t < length (calls1 @ calls2) \<longrightarrow>
         call_last_desc_interrupts_domain ((calls1 @ calls2) ! (b * unat dbs + t)) =
         (if t = unat dbs - 1 then InterruptsDomain_DEVICE else InterruptsDomain_NONE)"
      using nth by blast
    have failed': "\<forall>q < length (calls1 @ calls2). \<forall>status.
        program_call_result x dl (calls1 @ calls2) q = Inl status \<longrightarrow>
        Suc q = length (calls1 @ calls2) \<and> r = Inl status"
      using failed by blast
    have succeeded': "(\<forall>q < length (calls1 @ calls2).
          \<exists>n. program_call_result x dl (calls1 @ calls2) q = Inr n) \<longrightarrow>
        length (calls1 @ calls2) = (unat bc - unat bi) * unat dbs \<and>
        r = Inr (acc + programmed_descriptors x dl (calls1 @ calls2)) \<and>
        (0 < unat dbs \<longrightarrow>
           map call_last_desc_interrupts_domain (calls1 @ calls2) =
             hw_only_interrupts_domains (unat dbs) (unat bc - unat bi))"
      using succeeded by (rule impI)
    from res' len nth' failed' succeeded' show ?thesis
      by (intro exI [of _ r] exI [of _ "calls1 @ calls2"] conjI) assumption+
  qed
qed


text \<open>
  C7. \<open>program_desc_for_hw_only_flow\<close> programs the descriptor groups in the order of
  the batch indices and, within a batch, of the transfer indices, one programming call
  for each, and for every batch index and transfer index whose group it programs, the
  interrupts domain is the device one exactly when the transfer index is
  \<open>dynamic_batch_size - 1\<close>, and none otherwise. It stops at the first programming call
  that fails, with the status of that call; when no call it makes fails it programs all
  the \<open>batch_count * dynamic_batch_size\<close> groups, and returns the count of the
  descriptors programmed when that fits sixteen bits, the internal-failure status
  otherwise. So whenever it returns a count, all the groups are programmed, and for a
  \<open>dynamic_batch_size\<close> of at least 1 they are \<open>batch_count\<close> times
  \<open>dynamic_batch_size - 1\<close> groups with no interrupt and then one with a device
  interrupt: exactly \<open>batch_count\<close> device interrupts are programmed on the channel.
\<close>

theorem program_desc_for_hw_only_flow_interrupts:
  "\<exists>result calls.
      program_desc_for_hw_only_flow x desc_list single_transfer_size dynamic_batch_size
        batch_count = (result, desc_list @ calls) \<and>
      length calls \<le> unat batch_count * unat dynamic_batch_size \<and>
      (\<forall>batch_index transfer_index.
         transfer_index < unat dynamic_batch_size \<longrightarrow>
         batch_index * unat dynamic_batch_size + transfer_index < length calls \<longrightarrow>
         call_last_desc_interrupts_domain
           (calls ! (batch_index * unat dynamic_batch_size + transfer_index)) =
         (if transfer_index = unat dynamic_batch_size - 1 then InterruptsDomain_DEVICE
          else InterruptsDomain_NONE)) \<and>
      (\<forall>q < length calls. \<forall>status.
         program_call_result x desc_list calls q = Inl status \<longrightarrow>
         Suc q = length calls \<and> result = Inl status) \<and>
      ((\<forall>q < length calls. \<exists>n. program_call_result x desc_list calls q = Inr n) \<longrightarrow>
         length calls = unat batch_count * unat dynamic_batch_size \<and>
         result =
           (if IS_FIT_IN_UINT16 (programmed_descriptors x desc_list calls)
            then Inr (of_nat (programmed_descriptors x desc_list calls))
            else Inl HAILO_INTERNAL_FAILURE)) \<and>
      ((\<exists>n. result = Inr n) \<longrightarrow>
         length calls = unat batch_count * unat dynamic_batch_size \<and>
         (0 < dynamic_batch_size \<longrightarrow>
            map call_last_desc_interrupts_domain calls =
              hw_only_interrupts_domains (unat dynamic_batch_size) (unat batch_count) \<and>
            length (filter
              (\<lambda>call. call_last_desc_interrupts_domain call = InterruptsDomain_DEVICE) calls) =
              unat batch_count))"
proof -
  let ?dbs = "unat dynamic_batch_size"
  let ?bc = "unat batch_count"
  have "\<exists>r calls.
      program_desc_batches x single_transfer_size dynamic_batch_size batch_count 0 0 desc_list =
        (r, desc_list @ calls) \<and>
      length calls \<le> ?bc * ?dbs \<and>
      (\<forall>b t. t < ?dbs \<longrightarrow> b * ?dbs + t < length calls \<longrightarrow>
         call_last_desc_interrupts_domain (calls ! (b * ?dbs + t)) =
         (if t = ?dbs - 1 then InterruptsDomain_DEVICE else InterruptsDomain_NONE)) \<and>
      (\<forall>q < length calls. \<forall>status. program_call_result x desc_list calls q = Inl status \<longrightarrow>
         Suc q = length calls \<and> r = Inl status) \<and>
      ((\<forall>q < length calls. \<exists>n. program_call_result x desc_list calls q = Inr n) \<longrightarrow>
         length calls = ?bc * ?dbs \<and>
         r = Inr (0 + programmed_descriptors x desc_list calls) \<and>
         (0 < ?dbs \<longrightarrow>
            map call_last_desc_interrupts_domain calls = hw_only_interrupts_domains ?dbs ?bc))"
    using program_desc_batches_run [of 0 batch_count x single_transfer_size dynamic_batch_size 0
      desc_list] by simp
  then obtain r where "\<exists>calls.
      program_desc_batches x single_transfer_size dynamic_batch_size batch_count 0 0 desc_list =
        (r, desc_list @ calls) \<and>
      length calls \<le> ?bc * ?dbs \<and>
      (\<forall>b t. t < ?dbs \<longrightarrow> b * ?dbs + t < length calls \<longrightarrow>
         call_last_desc_interrupts_domain (calls ! (b * ?dbs + t)) =
         (if t = ?dbs - 1 then InterruptsDomain_DEVICE else InterruptsDomain_NONE)) \<and>
      (\<forall>q < length calls. \<forall>status. program_call_result x desc_list calls q = Inl status \<longrightarrow>
         Suc q = length calls \<and> r = Inl status) \<and>
      ((\<forall>q < length calls. \<exists>n. program_call_result x desc_list calls q = Inr n) \<longrightarrow>
         length calls = ?bc * ?dbs \<and>
         r = Inr (0 + programmed_descriptors x desc_list calls) \<and>
         (0 < ?dbs \<longrightarrow>
            map call_last_desc_interrupts_domain calls = hw_only_interrupts_domains ?dbs ?bc))" ..
  then obtain calls where run0:
      "program_desc_batches x single_transfer_size dynamic_batch_size batch_count 0 0 desc_list =
        (r, desc_list @ calls) \<and>
      length calls \<le> ?bc * ?dbs \<and>
      (\<forall>b t. t < ?dbs \<longrightarrow> b * ?dbs + t < length calls \<longrightarrow>
         call_last_desc_interrupts_domain (calls ! (b * ?dbs + t)) =
         (if t = ?dbs - 1 then InterruptsDomain_DEVICE else InterruptsDomain_NONE)) \<and>
      (\<forall>q < length calls. \<forall>status. program_call_result x desc_list calls q = Inl status \<longrightarrow>
         Suc q = length calls \<and> r = Inl status) \<and>
      ((\<forall>q < length calls. \<exists>n. program_call_result x desc_list calls q = Inr n) \<longrightarrow>
         length calls = ?bc * ?dbs \<and>
         r = Inr (0 + programmed_descriptors x desc_list calls) \<and>
         (0 < ?dbs \<longrightarrow>
            map call_last_desc_interrupts_domain calls = hw_only_interrupts_domains ?dbs ?bc))" ..
  note run = run0 [THEN conjunct1] run0 [THEN conjunct2, THEN conjunct1]
    run0 [THEN conjunct2, THEN conjunct2, THEN conjunct1]
    run0 [THEN conjunct2, THEN conjunct2, THEN conjunct2, THEN conjunct1, rule_format]
    run0 [THEN conjunct2, THEN conjunct2, THEN conjunct2, THEN conjunct2]
  define result where "result = fst (program_desc_for_hw_only_flow x desc_list
    single_transfer_size dynamic_batch_size batch_count)"
  have returned: "program_desc_for_hw_only_flow x desc_list single_transfer_size
      dynamic_batch_size batch_count = (result, desc_list @ calls)"
    using run(1) by (cases r) (simp_all add: result_def program_desc_for_hw_only_flow_def)
  have result_Inl: "result = Inl status" if "r = Inl status" for status
    using that run(1) by (simp add: result_def program_desc_for_hw_only_flow_def)
  have result_Inr: "result =
      (if IS_FIT_IN_UINT16 acc then Inr (of_nat acc) else Inl HAILO_INTERNAL_FAILURE)"
    if "r = Inr acc" for acc
    using that run(1) by (simp add: result_def program_desc_for_hw_only_flow_def)
  have failed: "\<forall>q < length calls. \<forall>status.
      program_call_result x desc_list calls q = Inl status \<longrightarrow>
      Suc q = length calls \<and> result = Inl status"
    using run(4) result_Inl by blast
  have succeeded: "(\<forall>q < length calls. \<exists>n. program_call_result x desc_list calls q = Inr n) \<longrightarrow>
      length calls = ?bc * ?dbs \<and>
      result =
        (if IS_FIT_IN_UINT16 (programmed_descriptors x desc_list calls)
         then Inr (of_nat (programmed_descriptors x desc_list calls))
         else Inl HAILO_INTERNAL_FAILURE)"
  proof
    assume "\<forall>q < length calls. \<exists>n. program_call_result x desc_list calls q = Inr n"
    with run(5) have "length calls = ?bc * ?dbs"
      "r = Inr (0 + programmed_descriptors x desc_list calls)"
      by blast+
    with result_Inr [of "programmed_descriptors x desc_list calls"]
    show "length calls = ?bc * ?dbs \<and>
      result =
        (if IS_FIT_IN_UINT16 (programmed_descriptors x desc_list calls)
         then Inr (of_nat (programmed_descriptors x desc_list calls))
         else Inl HAILO_INTERNAL_FAILURE)"
      by simp
  qed
  have complete: "(\<exists>n. result = Inr n) \<longrightarrow>
      length calls = ?bc * ?dbs \<and>
      (0 < dynamic_batch_size \<longrightarrow>
         map call_last_desc_interrupts_domain calls = hw_only_interrupts_domains ?dbs ?bc \<and>
         length (filter
           (\<lambda>call. call_last_desc_interrupts_domain call = InterruptsDomain_DEVICE) calls) = ?bc)"
  proof
    assume "\<exists>n. result = Inr n"
    then obtain n where n: "result = Inr n" ..
    have ok: "\<exists>k. program_call_result x desc_list calls q = Inr k" if "q < length calls" for q
    proof (cases "program_call_result x desc_list calls q")
      case (Inl status)
      with failed that n show ?thesis by auto
    next
      case (Inr k)
      then show ?thesis by blast
    qed
    with run(5) have len: "length calls = ?bc * ?dbs"
      and doms: "0 < ?dbs \<longrightarrow>
        map call_last_desc_interrupts_domain calls = hw_only_interrupts_domains ?dbs ?bc"
      by blast+
    have "map call_last_desc_interrupts_domain calls = hw_only_interrupts_domains ?dbs ?bc \<and>
        length (filter
          (\<lambda>call. call_last_desc_interrupts_domain call = InterruptsDomain_DEVICE) calls) = ?bc"
      if pos: "0 < dynamic_batch_size"
    proof -
      from pos have "0 < ?dbs" by (simp add: word_less_nat_alt)
      with doms have d: "map call_last_desc_interrupts_domain calls =
          hw_only_interrupts_domains ?dbs ?bc"
        by blast
      have "length (filter
          (\<lambda>call. call_last_desc_interrupts_domain call = InterruptsDomain_DEVICE) calls) =
        length (filter (\<lambda>d. d = InterruptsDomain_DEVICE)
          (map call_last_desc_interrupts_domain calls))"
        by (simp add: filter_map comp_def)
      with d show ?thesis
        by (simp add: hw_only_interrupts_domains_count)
    qed
    with len show "length calls = ?bc * ?dbs \<and>
      (0 < dynamic_batch_size \<longrightarrow>
         map call_last_desc_interrupts_domain calls = hw_only_interrupts_domains ?dbs ?bc \<and>
         length (filter
           (\<lambda>call. call_last_desc_interrupts_domain call = InterruptsDomain_DEVICE) calls) = ?bc)"
      by blast
  qed
  from returned run(2,3) failed succeeded complete show ?thesis
    by (intro exI [of _ result] exI [of _ calls] conjI) assumption+
qed


theorem program_desc_for_hw_only_flow_interrupts_witness:
  "(\<exists>calls.
      program_desc_for_hw_only_flow (example_limited_list 100) [] 1024 3 2 = (Inr 6, calls) \<and>
      map call_last_desc_interrupts_domain calls =
        [InterruptsDomain_NONE, InterruptsDomain_NONE, InterruptsDomain_DEVICE,
         InterruptsDomain_NONE, InterruptsDomain_NONE, InterruptsDomain_DEVICE] \<and>
      length (filter (\<lambda>call. call_last_desc_interrupts_domain call = InterruptsDomain_DEVICE)
        calls) = 2) \<and>
   (\<exists>calls.
      program_desc_for_hw_only_flow (example_limited_list 4) [] 1024 3 2 =
        (Inl HAILO_INVALID_OPERATION, calls) \<and>
      map call_last_desc_interrupts_domain calls =
        [InterruptsDomain_NONE, InterruptsDomain_NONE, InterruptsDomain_DEVICE,
         InterruptsDomain_NONE, InterruptsDomain_NONE])"
proof -
  let ?x = "example_limited_list 100"
  let ?y = "example_limited_list 4"
  have pos: "(0 :: 16 word) < 3" by simp
  have returned: "fst (program_desc_for_hw_only_flow ?x [] 1024 3 2) = Inr 6"
    by (simp add: program_desc_for_hw_only_flow_def example_limited_list_def
        IS_FIT_IN_UINT16_def program_desc_batches.simps program_desc_transfers.simps)
  from program_desc_for_hw_only_flow_interrupts [of ?x "[]" 1024 3 2]
  obtain result calls where run:
    "program_desc_for_hw_only_flow ?x [] 1024 3 2 = (result, calls)"
    "(\<exists>n. result = Inr n) \<longrightarrow>
       length calls = unat (2 :: 16 word) * unat (3 :: 16 word) \<and>
       ((0 :: 16 word) < 3 \<longrightarrow>
          map call_last_desc_interrupts_domain calls =
            hw_only_interrupts_domains (unat (3 :: 16 word)) (unat (2 :: 16 word)) \<and>
          length (filter
            (\<lambda>call. call_last_desc_interrupts_domain call = InterruptsDomain_DEVICE) calls) =
            unat (2 :: 16 word))"
    by auto
  from run(1) returned have result: "result = Inr 6" by simp
  with run(2) pos have doms: "map call_last_desc_interrupts_domain calls =
      hw_only_interrupts_domains (unat (3 :: 16 word)) (unat (2 :: 16 word))"
    and count: "length (filter
      (\<lambda>call. call_last_desc_interrupts_domain call = InterruptsDomain_DEVICE) calls) =
      unat (2 :: 16 word)"
    by blast+
  have "hw_only_interrupts_domains 3 2 =
      [InterruptsDomain_NONE, InterruptsDomain_NONE, InterruptsDomain_DEVICE,
       InterruptsDomain_NONE, InterruptsDomain_NONE, InterruptsDomain_DEVICE]"
    by (simp add: hw_only_interrupts_domains_def eval_nat_numeral)
  moreover have "unat (3 :: 16 word) = 3" "unat (2 :: 16 word) = 2"
    by simp_all
  ultimately have first: "\<exists>calls.
      program_desc_for_hw_only_flow ?x [] 1024 3 2 = (Inr 6, calls) \<and>
      map call_last_desc_interrupts_domain calls =
        [InterruptsDomain_NONE, InterruptsDomain_NONE, InterruptsDomain_DEVICE,
         InterruptsDomain_NONE, InterruptsDomain_NONE, InterruptsDomain_DEVICE] \<and>
      length (filter (\<lambda>call. call_last_desc_interrupts_domain call = InterruptsDomain_DEVICE)
        calls) = 2"
    using run(1) result doms count by simp
  let ?call = "\<lambda>domain offset. \<lparr>call_transfer_size = 1024 :: 32 word,
    call_last_desc_interrupts_domain = domain, call_desc_offset = offset,
    call_is_circular = False\<rparr>"
  let ?five = "[?call InterruptsDomain_NONE 0, ?call InterruptsDomain_NONE 1,
    ?call InterruptsDomain_DEVICE 2, ?call InterruptsDomain_NONE 3,
    ?call InterruptsDomain_NONE 4]"
  have stopped: "snd (program_desc_for_hw_only_flow ?y [] 1024 3 2) = ?five"
    by (simp add: program_desc_for_hw_only_flow_def example_limited_list_def
        program_desc_batches.simps program_desc_transfers.simps)
  have refused: "program_call_result ?y [] ?five 4 = Inl HAILO_INVALID_OPERATION"
    by (simp add: program_call_result_def example_limited_list_def)
  from program_desc_for_hw_only_flow_interrupts [of ?y "[]" 1024 3 2]
  obtain result' calls' where run':
    "program_desc_for_hw_only_flow ?y [] 1024 3 2 = (result', calls')"
    "\<forall>q < length calls'. \<forall>status.
       program_call_result ?y [] calls' q = Inl status \<longrightarrow>
       Suc q = length calls' \<and> result' = Inl status"
    by auto
  from run'(1) stopped have calls': "calls' = ?five" by simp
  from run'(2) [unfolded calls', rule_format, of 4 HAILO_INVALID_OPERATION] refused
  have "result' = Inl HAILO_INVALID_OPERATION" by simp
  with run'(1) calls' have second: "\<exists>calls.
      program_desc_for_hw_only_flow ?y [] 1024 3 2 = (Inl HAILO_INVALID_OPERATION, calls) \<and>
      map call_last_desc_interrupts_domain calls =
        [InterruptsDomain_NONE, InterruptsDomain_NONE, InterruptsDomain_DEVICE,
         InterruptsDomain_NONE, InterruptsDomain_NONE]"
    by simp
  from first second show ?thesis by blast
qed

section \<open>The default batch size\<close>

lemma get_network_batch_size_loop_substituted:
  "get_network_batch_size_loop c
     (map (\<lambda>entry. (fst entry,
             (snd entry)\<lparr>network_params_batch_size :=
               (if HAILO_DEFAULT_BATCH_SIZE c = network_params_batch_size (snd entry)
                then DEFAULT_ACTUAL_BATCH_SIZE c
                else network_params_batch_size (snd entry))\<rparr>)) ps) n =
   get_network_batch_size_loop c ps n"
  by (induction ps) auto

lemma get_network_batch_size_substituted:
  "get_network_batch_size c (substitute_default_batch_sizes c m) n =
     get_network_batch_size c m n"
  by (simp add: get_network_batch_size_def substitute_default_batch_sizes_def
      get_network_batch_size_loop_substituted)

lemma substitute_default_batch_sizes_fields:
  "m_network_index_map (substitute_default_batch_sizes c m) = m_network_index_map m"
  "m_driver (substitute_default_batch_sizes c m) = m_driver m"
  "m_channel_allocator (substitute_default_batch_sizes c m) = m_channel_allocator m"
  "m_inter_context_buffers (substitute_default_batch_sizes c m) = m_inter_context_buffers m"
  "m_latency_meters (substitute_default_batch_sizes c m) = m_latency_meters m"
  "m_boundary_channels (substitute_default_batch_sizes c m) = m_boundary_channels m"
  "stream_params_by_name (m_config_params (substitute_default_batch_sizes c m)) =
     stream_params_by_name (m_config_params m)"
  "map fst (network_params_by_name (m_config_params (substitute_default_batch_sizes c m))) =
     map fst (network_params_by_name (m_config_params m))"
  by (simp_all add: substitute_default_batch_sizes_def comp_def)

lemma fill_network_batch_size_loop_substituted:
  "fill_network_batch_size_loop c (substitute_default_batch_sizes c m) ps h =
     fill_network_batch_size_loop c m ps h"
  by (rule fill_network_batch_size_loop_cong)
    (simp_all add: substitute_default_batch_sizes_fields get_network_batch_size_substituted)

lemma fill_network_batch_size_loop_names:
  "map fst ps = map fst ps' \<Longrightarrow>
     fill_network_batch_size_loop c m ps h = fill_network_batch_size_loop c m ps' h"
proof (induction ps arbitrary: ps' h)
  case Nil
  then show ?case by simp
next
  case (Cons p ps)
  then obtain p' qs where ps': "ps' = p' # qs" "fst p = fst p'" "map fst ps = map fst qs"
    by (cases ps') auto
  from Cons.IH [OF ps'(3)] ps'(1,2) show ?case
    by (simp split: option.splits sum.splits prod.splits)
qed

lemma fill_network_batch_size_substituted:
  "fill_network_batch_size c (substitute_default_batch_sizes c m) h =
     fill_network_batch_size c m h"
proof -
  let ?m' = "substitute_default_batch_sizes c m"
  have names: "map fst (network_params_by_name (m_config_params ?m')) =
      map fst (network_params_by_name (m_config_params m))"
    by (rule substitute_default_batch_sizes_fields)
  then have "length (network_params_by_name (m_config_params ?m')) =
      length (network_params_by_name (m_config_params m))"
    by (metis length_map)
  with fill_network_batch_size_loop_names [OF names] show ?thesis
    by (simp add: fill_network_batch_size_def fill_network_batch_size_loop_substituted)
qed

lemma substitute_default_batch_sizes_updates:
  "substitute_default_batch_sizes c (m\<lparr>m_inter_context_buffers := b\<rparr>) =
     (substitute_default_batch_sizes c m)\<lparr>m_inter_context_buffers := b\<rparr>"
  "substitute_default_batch_sizes c (m\<lparr>m_channel_allocator := a\<rparr>) =
     (substitute_default_batch_sizes c m)\<lparr>m_channel_allocator := a\<rparr>"
  "substitute_default_batch_sizes c (m\<lparr>m_boundary_channels := ch\<rparr>) =
     (substitute_default_batch_sizes c m)\<lparr>m_boundary_channels := ch\<rparr>"
  by (simp_all add: substitute_default_batch_sizes_def)

lemma create_inter_context_buffer_substituted:
  "create_inter_context_buffer x c (substitute_default_batch_sizes c m) transfer_size
     src_stream_index src_context_index network_name d2h_channel_id =
   (case create_inter_context_buffer x c m transfer_size src_stream_index src_context_index
           network_name d2h_channel_id of
      (result, m') \<Rightarrow> (result, substitute_default_batch_sizes c m'))"
  by (simp add: create_inter_context_buffer_def get_network_batch_size_substituted
      substitute_default_batch_sizes_fields substitute_default_batch_sizes_updates Let_def
      split: sum.splits option.splits)

lemma get_available_channel_id_substituted:
  "get_available_channel_id x c (substitute_default_batch_sizes c m) ident dir index =
   (case get_available_channel_id x c m ident dir index of
      (result, m') \<Rightarrow> (result, substitute_default_batch_sizes c m'))"
  by (simp add: get_available_channel_id_def substitute_default_batch_sizes_fields
      substitute_default_batch_sizes_updates split: prod.splits)


lemma create_boundary_vdma_channel_substituted:
  "create_boundary_vdma_channel x c (substitute_default_batch_sizes c m) layer =
     map_option (\<lambda>r. (fst r, substitute_default_batch_sizes c (snd r)))
       (create_boundary_vdma_channel x c m layer)"
proof -
  obtain r m1 where gaci: "get_available_channel_id x c m (to_layer_identifier x layer)
      (if layer_direction layer = HAILO_H2D_STREAM then H2D else D2H) (dma_engine_index layer) =
      (r, m1)"
    by (cases "get_available_channel_id x c m (to_layer_identifier x layer)
      (if layer_direction layer = HAILO_H2D_STREAM then H2D else D2H) (dma_engine_index layer)")
  then have gaci': "get_available_channel_id x c (substitute_default_batch_sizes c m)
      (to_layer_identifier x layer)
      (if layer_direction layer = HAILO_H2D_STREAM then H2D else D2H) (dma_engine_index layer) =
      (r, substitute_default_batch_sizes c m1)"
    by (simp add: get_available_channel_id_substituted)
  show ?thesis
    unfolding create_boundary_vdma_channel_def Let_def gaci gaci'
    by (simp add: get_network_batch_size_substituted substitute_default_batch_sizes_fields
        substitute_default_batch_sizes_updates split: sum.splits option.splits prod.splits)
qed

lemma fill_network_batch_size_inner_writes:
  assumes "fill_network_batch_size_inner c m n i h = Some r"
  shows "case r of
      Inl status \<Rightarrow> True
    | Inr (idx, h') \<Rightarrow>
        h' = h \<or>
        (\<exists>k b. get_network_batch_size c m n = Inr b \<and> k < length (batch_size h) \<and>
           h' = h\<lparr>batch_size := (batch_size h)[k := b]\<rparr>)"
  using assms
proof (induction rule: fill_network_batch_size_inner.raw_induct [rotated 1, consumes 1])
  case (1 f c m n i h r)
  show ?case
  proof (cases "unat i < length (m_network_index_map m) \<and> m_network_index_map m ! unat i \<noteq> n")
    case True
    with 1(2) have "f c m n (i + 1) h = Some r" by simp
    then show ?thesis by (rule 1(1))
  next
    case False
    with 1(2) show ?thesis
      by (auto split: if_splits sum.splits)
  qed
qed

lemma fill_network_batch_size_loop_never_sentinel:
  assumes "\<forall>n b. get_network_batch_size c m n = Inr b \<longrightarrow> b \<noteq> sentinel"
    and "fill_network_batch_size_loop c m ps h = Some (status, h')"
  shows "length (batch_size h') = length (batch_size h) \<and>
    (\<forall>i < length (batch_size h).
       batch_size h' ! i = batch_size h ! i \<or> batch_size h' ! i \<noteq> sentinel)"
  using assms(2)
proof (induction ps arbitrary: h)
  case Nil
  then show ?case by simp
next
  case (Cons p ps)
  from Cons.prems obtain r where r: "fill_network_batch_size_inner c m (fst p) 0 h = Some r"
    by (cases "fill_network_batch_size_inner c m (fst p) 0 h") auto
  show ?case
  proof (cases r)
    case (Inl e)
    with Cons.prems r show ?thesis by simp
  next
    case (Inr pair)
    obtain idx h1 where pair: "pair = (idx, h1)" by (cases pair)
    from fill_network_batch_size_inner_writes [OF r] Inr pair
    have h1: "h1 = h \<or>
        (\<exists>k b. get_network_batch_size c m (fst p) = Inr b \<and> k < length (batch_size h) \<and>
           h1 = h\<lparr>batch_size := (batch_size h)[k := b]\<rparr>)"
      by simp
    have step: "length (batch_size h1) = length (batch_size h) \<and>
        (\<forall>i < length (batch_size h).
           batch_size h1 ! i = batch_size h ! i \<or> batch_size h1 ! i \<noteq> sentinel)"
    proof (cases "h1 = h")
      case True
      then show ?thesis by simp
    next
      case False
      with h1 obtain k b where kb: "get_network_batch_size c m (fst p) = Inr b"
        "k < length (batch_size h)" "h1 = h\<lparr>batch_size := (batch_size h)[k := b]\<rparr>"
        by blast
      from assms(1) kb(1) have "b \<noteq> sentinel" by blast
      with kb(2,3) show ?thesis by (simp add: nth_list_update)
    qed
    show ?thesis
    proof (cases "length (m_network_index_map m) = unat idx")
      case True
      with Cons.prems r Inr pair have "h' = h1" by simp
      with step show ?thesis by simp
    next
      case False
      with Cons.prems r Inr pair
      have "fill_network_batch_size_loop c m ps h1 = Some (status, h')" by simp
      from Cons.IH [OF this] have ih: "length (batch_size h') = length (batch_size h1)"
        "\<And>i. i < length (batch_size h1) \<Longrightarrow>
           batch_size h' ! i = batch_size h1 ! i \<or> batch_size h' ! i \<noteq> sentinel"
        by blast+
      from step have st: "length (batch_size h1) = length (batch_size h)"
        "\<And>i. i < length (batch_size h) \<Longrightarrow>
           batch_size h1 ! i = batch_size h ! i \<or> batch_size h1 ! i \<noteq> sentinel"
        by blast+
      show ?thesis
      proof (intro conjI allI impI)
        show "length (batch_size h') = length (batch_size h)"
          using ih(1) st(1) by simp
      next
        fix i assume i: "i < length (batch_size h)"
        then have "i < length (batch_size h1)" using st(1) by simp
        from ih(2) [OF this] st(2) [OF i]
        show "batch_size h' ! i = batch_size h ! i \<or> batch_size h' ! i \<noteq> sentinel"
          by metis
      qed
    qed
  qed
qed

text \<open>
  C10. Whenever the actual default batch size is not the sentinel itself,
  \<open>get_network_batch_size\<close> never returns the default-batch-size sentinel: for a name in
  the configured parameters it returns the actual default batch size when the
  configured batch size is the sentinel and the configured batch size otherwise, and
  for a name that is not in them it fails with not-found. Its consumers see the
  substituted value only: \<open>fill_network_batch_size\<close> never writes the sentinel into the
  header's array, and the header assembly, the creation of a boundary channel (with its
  bounds on the active transfers) and the creation of an inter-context buffer do on a
  manager what they do on the manager whose sentinels are replaced by the actual
  default.
\<close>

theorem get_network_batch_size_never_default_sentinel:
  assumes "DEFAULT_ACTUAL_BATCH_SIZE c \<noteq> HAILO_DEFAULT_BATCH_SIZE c"
  shows "(case map_of (network_params_by_name (m_config_params m)) network_name of
       None \<Rightarrow> get_network_batch_size c m network_name = Inl HAILO_NOT_FOUND
     | Some p \<Rightarrow>
         get_network_batch_size c m network_name =
           Inr (if network_params_batch_size p = HAILO_DEFAULT_BATCH_SIZE c
                then DEFAULT_ACTUAL_BATCH_SIZE c else network_params_batch_size p)) \<and>
    get_network_batch_size c m network_name \<noteq> Inr (HAILO_DEFAULT_BATCH_SIZE c) \<and>
    (\<forall>status h'. fill_network_batch_size c m app_header = Some (status, h') \<longrightarrow>
       length (batch_size h') = length (batch_size app_header) \<and>
       (\<forall>i < length (batch_size app_header).
          batch_size h' ! i = batch_size app_header ! i \<or>
          batch_size h' ! i \<noteq> HAILO_DEFAULT_BATCH_SIZE c)) \<and>
    fill_network_batch_size c (substitute_default_batch_sizes c m) app_header =
      fill_network_batch_size c m app_header \<and>
    create_boundary_vdma_channel x c (substitute_default_batch_sizes c m) layer =
      map_option (\<lambda>r. (fst r, substitute_default_batch_sizes c (snd r)))
        (create_boundary_vdma_channel x c m layer) \<and>
    create_inter_context_buffer x c (substitute_default_batch_sizes c m) transfer_size
      src_stream_index src_context_index network_name d2h_channel_id =
      (case create_inter_context_buffer x c m transfer_size src_stream_index src_context_index
              network_name d2h_channel_id of
         (result, m') \<Rightarrow> (result, substitute_default_batch_sizes c m'))"
proof -
  have value_of: "get_network_batch_size c m n =
      (case map_of (network_params_by_name (m_config_params m)) n of
         None \<Rightarrow> Inl HAILO_NOT_FOUND
       | Some p \<Rightarrow>
           Inr (if HAILO_DEFAULT_BATCH_SIZE c = network_params_batch_size p
                then DEFAULT_ACTUAL_BATCH_SIZE c else network_params_batch_size p))" for n
    by (simp add: get_network_batch_size_def get_network_batch_size_loop_map_of)
  have never: "get_network_batch_size c m n \<noteq> Inr (HAILO_DEFAULT_BATCH_SIZE c)" for n
    using assms by (auto simp: value_of split: option.splits)
  then have written: "\<forall>n b. get_network_batch_size c m n = Inr b \<longrightarrow>
      b \<noteq> HAILO_DEFAULT_BATCH_SIZE c"
    by auto
  have header: "length (batch_size h') = length (batch_size app_header) \<and>
       (\<forall>i < length (batch_size app_header).
          batch_size h' ! i = batch_size app_header ! i \<or>
          batch_size h' ! i \<noteq> HAILO_DEFAULT_BATCH_SIZE c)"
    if "fill_network_batch_size c m app_header = Some (status, h')" for status h'
    using fill_network_batch_size_loop_never_sentinel [OF written]
      that [unfolded fill_network_batch_size_def]
    by fastforce
  have first: "case map_of (network_params_by_name (m_config_params m)) network_name of
       None \<Rightarrow> get_network_batch_size c m network_name = Inl HAILO_NOT_FOUND
     | Some p \<Rightarrow>
         get_network_batch_size c m network_name =
           Inr (if network_params_batch_size p = HAILO_DEFAULT_BATCH_SIZE c
                then DEFAULT_ACTUAL_BATCH_SIZE c else network_params_batch_size p)"
    by (auto simp: value_of split: option.splits)
  show ?thesis
    using first never header
    by (simp only: fill_network_batch_size_substituted create_boundary_vdma_channel_substituted
        create_inter_context_buffer_substituted simp_thms) blast
qed


theorem get_network_batch_size_never_default_sentinel_witness:
  "get_network_batch_size example_constants
     (example_two_stage_manager [(''a'', 0), (''c'', 2)]) ''a'' = Inr 1 \<and>
   get_network_batch_size example_constants
     (example_two_stage_manager [(''a'', 0), (''c'', 2)]) ''c'' = Inr 2 \<and>
   get_network_batch_size example_constants
     (example_two_stage_manager [(''a'', 0), (''c'', 2)]) ''z'' = Inl HAILO_NOT_FOUND"
proof -
  let ?m = "example_two_stage_manager [(''a'', 0), (''c'', 2)]"
  have differ: "DEFAULT_ACTUAL_BATCH_SIZE example_constants \<noteq>
      HAILO_DEFAULT_BATCH_SIZE example_constants"
    by (simp add: example_constants_def)
  have params: "network_params_by_name (m_config_params ?m) =
      [(''a'', \<lparr>network_params_batch_size = 0\<rparr>), (''c'', \<lparr>network_params_batch_size = 2\<rparr>)]"
    by (simp add: example_two_stage_manager_def example_manager_def)
  have known: "HAILO_DEFAULT_BATCH_SIZE example_constants = 0"
    "DEFAULT_ACTUAL_BATCH_SIZE example_constants = 1"
    by (simp_all add: example_constants_def)
  from get_network_batch_size_never_default_sentinel
    [where c = example_constants and m = ?m and network_name = "''a''", OF differ,
      THEN conjunct1]
  have a: "get_network_batch_size example_constants ?m ''a'' = Inr 1"
    unfolding params known by simp
  from get_network_batch_size_never_default_sentinel
    [where c = example_constants and m = ?m and network_name = "''c''", OF differ,
      THEN conjunct1]
  have c: "get_network_batch_size example_constants ?m ''c'' = Inr 2"
    unfolding params known by simp
  from get_network_batch_size_never_default_sentinel
    [where c = example_constants and m = ?m and network_name = "''z''", OF differ,
      THEN conjunct1]
  have z: "get_network_batch_size example_constants ?m ''z'' = Inl HAILO_NOT_FOUND"
    unfolding params known by simp
  from a c z show ?thesis by (simp only: simp_thms)
qed

end
